theory Spec2Isabelle
  imports Complex_Main
begin

section \<open>The audiovisual generator of end2you\<close>

text \<open>
  A shallow embedding of \<^verbatim>\<open>src/end2you/data_generator/audiovisual_generator.py\<close>
  (class \<^verbatim>\<open>AudioVisualGenerator\<close>). The label reader, the media clip, the face
  extractor and the HDF5 writer are collaborators whose code is not part of the file;
  their responses are parameters. Floating-point numbers are IEEE values, rounded to
  \<^verbatim>\<open>float32\<close> or \<^verbatim>\<open>float64\<close> where the code rounds them.
\<close>

subsection \<open>Exceptions\<close>

datatype error =
    IndexError
  | ValueError
  | AxisError
  | AttributeError
  | OverflowError
  | External string \<comment> \<open>any exception raised inside a collaborator\<close>

subsection \<open>Floating-point numbers\<close>

text \<open>
  A floating-point value: a finite number, an infinity or \<^verbatim>\<open>nan\<close>. The two zeros are
  not told apart.
\<close>

datatype fl = Fin real | PInf | NInf | NaN

text \<open>The binary exponent of a positive number: \<open>2 ^ e \<le> x < 2 ^ (e + 1)\<close>.\<close>

function ilog2 :: "real \<Rightarrow> int" where
  "ilog2 x =
     (if x \<le> 0 then 0
      else if x < 1 then ilog2 (x * 2) - 1
      else if 2 \<le> x then ilog2 (x / 2) + 1
      else 0)"
  by pat_completeness auto
termination
proof (relation "measure (\<lambda>x. nat \<bar>\<lfloor>log 2 x\<rfloor>\<bar>)")
  show "wf (measure (\<lambda>x. nat \<bar>\<lfloor>log 2 x\<rfloor>\<bar>))" by simp
next
  fix x :: real
  assume "\<not> x \<le> 0" "x < 1"
  then have x: "0 < x" "x < 1" by simp_all
  then have eq: "log 2 (x * 2) = log 2 x + 1" by (simp add: log_mult)
  obtain k where k: "\<lfloor>log 2 x\<rfloor> = k" by simp
  have "log 2 x < 0" using x by simp
  then have "k < 0" using k by linarith
  moreover have "\<lfloor>log 2 (x * 2)\<rfloor> = k + 1" using eq k by simp
  ultimately show "(x * 2, x) \<in> measure (\<lambda>x. nat \<bar>\<lfloor>log 2 x\<rfloor>\<bar>)"
    using k by simp
next
  fix x :: real
  assume "\<not> x \<le> 0" "\<not> x < 1" "2 \<le> x"
  then have x: "2 \<le> x" by simp
  then have eq: "log 2 (x / 2) = log 2 x - 1" by (simp add: log_divide)
  obtain k where k: "\<lfloor>log 2 x\<rfloor> = k" by simp
  have "1 \<le> log 2 x" using x by (simp add: le_log_iff)
  then have "1 \<le> k" using k by linarith
  moreover have "\<lfloor>log 2 (x / 2)\<rfloor> = k - 1" using eq k by simp
  ultimately show "(x / 2, x) \<in> measure (\<lambda>x. nat \<bar>\<lfloor>log 2 x\<rfloor>\<bar>)"
    using k by simp
qed

declare ilog2.simps [simp del]

text \<open>\<^verbatim>\<open>np.rint\<close>: to the nearest integer, a tie to the even one.\<close>

definition rint :: "real \<Rightarrow> int" where
  "rint x =
     (let f = \<lfloor>x\<rfloor>; d = x - of_int f
      in if d < 1 / 2 then f
         else if 1 / 2 < d then f + 1
         else if even f then f else f + 1)"

text \<open>
  Rounding to the nearest value of a binary format with \<open>p\<close> significant bits and
  largest exponent \<open>emax\<close>, a tie to the even significand: below the smallest normal
  number the spacing stays that of the subnormal numbers, and a result beyond the
  largest finite value is an infinity.
\<close>

definition round_fl :: "nat \<Rightarrow> int \<Rightarrow> real \<Rightarrow> fl" where
  "round_fl p emax x =
     (if x = 0 then Fin 0
      else
        (let e = max (ilog2 \<bar>x\<bar>) (1 - emax);
             q = 2 powi (e - int p + 1);
             y = of_int (rint (x / q)) * q
         in if 2 powi (emax + 1) \<le> \<bar>y\<bar> then (if x < 0 then NInf else PInf) else Fin y))"

definition r32 :: "real \<Rightarrow> fl" where
  "r32 = round_fl 24 127"

definition r64 :: "real \<Rightarrow> fl" where
  "r64 = round_fl 53 1023"

text \<open>The cast of one value by \<^verbatim>\<open>astype(np.float32)\<close>.\<close>

fun cast32 :: "fl \<Rightarrow> fl" where
  "cast32 (Fin x) = r32 x"
| "cast32 v = v"

text \<open>The difference of two \<^verbatim>\<open>float32\<close> values, a \<^verbatim>\<open>float32\<close>.\<close>

fun fl_sub32 :: "fl \<Rightarrow> fl \<Rightarrow> fl" where
  "fl_sub32 (Fin x) (Fin y) = r32 (x - y)"
| "fl_sub32 NaN _ = NaN"
| "fl_sub32 _ NaN = NaN"
| "fl_sub32 PInf PInf = NaN"
| "fl_sub32 NInf NInf = NaN"
| "fl_sub32 PInf _ = PInf"
| "fl_sub32 NInf _ = NInf"
| "fl_sub32 _ PInf = NInf"
| "fl_sub32 _ NInf = PInf"

text \<open>The product and the sum of two \<^verbatim>\<open>float64\<close> values.\<close>

fun fl_mul64 :: "fl \<Rightarrow> fl \<Rightarrow> fl" where
  "fl_mul64 (Fin x) (Fin y) = r64 (x * y)"
| "fl_mul64 NaN _ = NaN"
| "fl_mul64 _ NaN = NaN"
| "fl_mul64 (Fin x) v = (if x = 0 then NaN else if (0 < x) = (v = PInf) then PInf else NInf)"
| "fl_mul64 v (Fin y) = (if y = 0 then NaN else if (0 < y) = (v = PInf) then PInf else NInf)"
| "fl_mul64 v w = (if v = w then PInf else NInf)"

fun fl_add64 :: "fl \<Rightarrow> fl \<Rightarrow> fl" where
  "fl_add64 (Fin x) (Fin y) = r64 (x + y)"
| "fl_add64 NaN _ = NaN"
| "fl_add64 _ NaN = NaN"
| "fl_add64 PInf NInf = NaN"
| "fl_add64 NInf PInf = NaN"
| "fl_add64 (Fin x) v = v"
| "fl_add64 v _ = v"

text \<open>A \<^verbatim>\<open>float64\<close> value divided by a count.\<close>

fun fl_div64 :: "fl \<Rightarrow> nat \<Rightarrow> fl" where
  "fl_div64 (Fin x) n =
     (if n = 0 then (if x = 0 then NaN else if 0 < x then PInf else NInf)
      else r64 (x / of_nat n))"
| "fl_div64 v n = v"

text \<open>
  The \<^verbatim>\<open>float64\<close> mean of a row of \<^verbatim>\<open>float64\<close> values, as \<^verbatim>\<open>mean\<close> computes it: the
  values are added one after another, each sum rounded, and the total is divided by the
  number of values; an empty row gives \<^verbatim>\<open>nan\<close>. For a mono or a stereo frame, which
  is what the audio reader yields, there is at most one addition of two values and its
  order does not matter.
\<close>

definition mean64 :: "fl list \<Rightarrow> fl" where
  "mean64 xs = fl_div64 (foldl fl_add64 (Fin 0) xs) (length xs)"

text \<open>
  \<^verbatim>\<open>np.around(x, decimals=d)\<close> on a \<^verbatim>\<open>float64\<close> is
  \<^verbatim>\<open>rint(x * 10**d) / 10**d\<close>, each operation rounded.
\<close>

definition np_around :: "fl \<Rightarrow> nat \<Rightarrow> fl" where
  "np_around v decimals =
     (case fl_mul64 v (Fin (10 ^ decimals)) of
        Fin y \<Rightarrow> r64 (of_int (rint y) / 10 ^ decimals)
      | w \<Rightarrow> w)"

text \<open>
  Python's \<^verbatim>\<open>int(x)\<close> on a float truncates toward zero; it raises
  \<^verbatim>\<open>OverflowError\<close> on an infinity and \<^verbatim>\<open>ValueError\<close> on \<^verbatim>\<open>nan\<close>.
\<close>

fun py_int :: "fl \<Rightarrow> error + int" where
  "py_int (Fin x) = Inr (if 0 \<le> x then \<lfloor>x\<rfloor> else \<lceil>x\<rceil>)"
| "py_int NaN = Inl ValueError"
| "py_int v = Inl OverflowError"

text \<open>
  Lines 65 and 66:
  \<^verbatim>\<open>int(np.around(rate * (timestamps[1] - timestamps[0]), decimals=6))\<close>. The
  timestamps are \<^verbatim>\<open>float32\<close> values and so is their difference; the product with the
  Python integer \<open>rate\<close> is a \<^verbatim>\<open>float64\<close> (NumPy 1.x, for which the code is written,
  promotes a \<^verbatim>\<open>float32\<close> scalar and a Python integer to \<^verbatim>\<open>float64\<close>).
\<close>

definition num_samples_of :: "int \<Rightarrow> fl \<Rightarrow> fl \<Rightarrow> error + int" where
  "num_samples_of rate t0 t1 =
     py_int (np_around (fl_mul64 (r64 (of_int rate)) (fl_sub32 t1 t0)) 6)"

subsection \<open>NumPy arrays\<close>

text \<open>An array is its shape and its elements in row-major order.\<close>

record ndarray =
  shape :: "nat list"
  data :: "fl list"

definition wf_nd :: "ndarray \<Rightarrow> bool" where
  "wf_nd a = (length (data a) = prod_list (shape a))"

text \<open>\<^verbatim>\<open>np.zeros(shp)\<close>\<close>

definition np_zeros :: "nat list \<Rightarrow> ndarray" where
  "np_zeros shp = \<lparr>shape = shp, data = replicate (prod_list shp) (Fin 0)\<rparr>"

text \<open>\<^verbatim>\<open>a.astype(np.float32)\<close>\<close>

definition nd_astype32 :: "ndarray \<Rightarrow> ndarray" where
  "nd_astype32 a = \<lparr>shape = shape a, data = map cast32 (data a)\<rparr>"

text \<open>Python's \<^verbatim>\<open>xs[:n]\<close>: a negative bound counts from the end.\<close>

definition py_slice_to :: "int \<Rightarrow> 'a list \<Rightarrow> 'a list" where
  "py_slice_to n xs = (if 0 \<le> n then take (nat n) xs else take (length xs - nat (- n)) xs)"

text \<open>\<^verbatim>\<open>a[:n]\<close> on an array: a slice of the first axis; a 0-d array cannot be indexed.\<close>

definition nd_slice_to :: "int \<Rightarrow> ndarray \<Rightarrow> error + ndarray" where
  "nd_slice_to n a =
     (case shape a of
        [] \<Rightarrow> Inl IndexError
      | t # rest \<Rightarrow>
          (let t' = length (py_slice_to n [0..<t])
           in Inr \<lparr>shape = t' # rest, data = take (t' * prod_list rest) (data a)\<rparr>))"

text \<open>
  \<^verbatim>\<open>np.array(xs)\<close> on a list of arrays: the arrays are stacked along a new first axis.
  Arrays of different shapes do not give a regular array: recent NumPy raises
  \<^verbatim>\<open>ValueError\<close> in \<^verbatim>\<open>np.array\<close>, older NumPy builds an object array on which the
  \<^verbatim>\<open>astype(np.float32)\<close> that follows raises \<^verbatim>\<open>ValueError\<close>.
\<close>

definition np_stack :: "ndarray list \<Rightarrow> error + ndarray" where
  "np_stack xs =
     (case xs of
        [] \<Rightarrow> Inr \<lparr>shape = [0], data = []\<rparr>
      | a # _ \<Rightarrow>
          if list_all (\<lambda>b. shape b = shape a) xs
          then Inr \<lparr>shape = length xs # shape a, data = concat (map data xs)\<rparr>
          else Inl ValueError)"

text \<open>
  \<^verbatim>\<open>a.transpose(0, 3, 1, 2)\<close>: only for four axes; \<open>out[t, c, h, w] = a[t, h, w, c]\<close>.
\<close>

definition np_transpose_0312 :: "ndarray \<Rightarrow> error + ndarray" where
  "np_transpose_0312 a =
     (if length (shape a) = 4
      then
        (let T = shape a ! 0; H = shape a ! 1; W = shape a ! 2; C = shape a ! 3
         in Inr \<lparr>shape = [T, C, H, W],
                 data = map (\<lambda>i. let w = i mod W; h = (i div W) mod H;
                                      c = (i div (W * H)) mod C; t = i div (W * H * C)
                                  in data a ! (((t * H + h) * W + w) * C + c))
                            [0..<T * C * H * W]\<rparr>)
      else Inl ValueError)"

text \<open>
  \<^verbatim>\<open>np.array(frames).mean(1)\<close> on the list of audio frames (each a list of channel
  samples): an empty list gives a one-axis array, for which axis 1 is out of bounds;
  frames of different lengths give no regular array.
\<close>

definition audio_mean :: "fl list list \<Rightarrow> error + fl list" where
  "audio_mean frames =
     (case frames of
        [] \<Rightarrow> Inl AxisError
      | f # _ \<Rightarrow>
          if list_all (\<lambda>r. length r = length f) frames
          then Inr (map mean64 frames)
          else Inl ValueError)"

text \<open>A one-axis array of the given samples.\<close>

definition nd_vector :: "fl list \<Rightarrow> ndarray" where
  "nd_vector xs = \<lparr>shape = [length xs], data = xs\<rparr>"

subsection \<open>Collaborators\<close>

text \<open>
  A \<^verbatim>\<open>FaceExtractor\<close>: its \<^verbatim>\<open>resize\<close> attribute, its method
  \<^verbatim>\<open>extract_and_resize_face\<close> (\<open>Inl\<close> when it raises) and the truth value Python
  gives the object in \<^verbatim>\<open>if detector\<close> (true for a plain object).
\<close>

record face_extractor =
  resize :: "nat list"
  extract_and_resize_face :: "ndarray \<Rightarrow> error + ndarray"
  truthy :: bool

text \<open>
  A \<^verbatim>\<open>VideoFileClip\<close>: whether it has an audio track (\<^verbatim>\<open>clip.audio\<close> is not
  \<^verbatim>\<open>None\<close>), and the lists \<^verbatim>\<open>list(clip.subclip(s, e).iter_frames())\<close> of video
  frames (each an array of shape \<open>(H, W, C)\<close>) and
  \<^verbatim>\<open>list(clip.audio.subclip(s, e).iter_frames())\<close> of audio frames. The bounds are
  the \<^verbatim>\<open>float32\<close> timestamps.
\<close>

record clip =
  has_audio :: bool
  iter_frames :: "fl \<Rightarrow> fl \<Rightarrow> error + ndarray list"
  audio_iter_frames :: "fl \<Rightarrow> fl \<Rightarrow> error + fl list list"

text \<open>The media files: \<^verbatim>\<open>VideoFileClip(str(data_file))\<close>.\<close>

type_synonym media = "string \<Rightarrow> error + clip"

text \<open>What a run does to the outside, in order.\<close>

datatype event =
    ReadLabels string
  | OpenClip string
  | VisualRange fl fl
  | AudioRange fl fl

subsection \<open>The generator\<close>

record generator =
  detector :: "face_extractor option"
  labelfile_reader :: "string \<Rightarrow> error + (fl list list \<times> string list)"
  fps :: int
  sr :: int

text \<open>
  \<^verbatim>\<open>__init__\<close> (lines 30 to 38). \<open>default_extractor\<close> is the object
  \<^verbatim>\<open>FaceExtractor()\<close>; \<^verbatim>\<open>not detector\<close> holds for \<^verbatim>\<open>None\<close> and for a falsy object.
\<close>

definition init ::
  "face_extractor \<Rightarrow> (string \<Rightarrow> error + (fl list list \<times> string list)) \<Rightarrow>
   face_extractor option \<Rightarrow> int \<Rightarrow> int \<Rightarrow> generator" where
  "init default_extractor reader det fps_arg sr_arg =
     (let det' = (if (case det of None \<Rightarrow> True | Some d \<Rightarrow> \<not> truthy d)
                  then Some default_extractor else det)
      in \<lparr>detector = det', labelfile_reader = reader, fps = fps_arg, sr = sr_arg\<rparr>)"

text \<open>
  Line 56, \<^verbatim>\<open>np.array(file_data).astype(np.float32)\<close>, kept as the rows of the array:
  rows of different lengths give no regular array, and every value is cast.
\<close>

definition np_array_rows :: "fl list list \<Rightarrow> error + fl list list" where
  "np_array_rows rows =
     (case rows of
        [] \<Rightarrow> Inr []
      | r # _ \<Rightarrow>
          if list_all (\<lambda>q. length q = length r) rows then Inr (map (map cast32) rows)
          else Inl ValueError)"

text \<open>
  \<^verbatim>\<open>file_data[:,0]\<close>: without rows the array has one axis only, and without columns
  index 0 is out of bounds.
\<close>

definition column0 :: "fl list list \<Rightarrow> error + fl list" where
  "column0 rows =
     (case rows of
        [] \<Rightarrow> Inl IndexError
      | r # _ \<Rightarrow> if r = [] then Inl IndexError else Inr (map hd rows))"

text \<open>\<^verbatim>\<open>file_data[:-1,1:]\<close>, for at least one row and one column.\<close>

definition label_rows :: "fl list list \<Rightarrow> ndarray" where
  "label_rows rows =
     \<lparr>shape = [length rows - 1, length (hd rows) - 1],
      data = concat (map tl (butlast rows))\<rparr>"

text \<open>Lines 76 to 83: the detector with its catch-all fallback, then the transposition.\<close>

definition visual_post :: "generator \<Rightarrow> ndarray \<Rightarrow> error + ndarray" where
  "visual_post g visual_frame =
     (case (case detector g of
              None \<Rightarrow> Inr visual_frame
            | Some d \<Rightarrow>
                if truthy d
                then (case extract_and_resize_face d visual_frame of
                        Inr v \<Rightarrow> Inr v
                      | Inl _ \<Rightarrow>
                          (case resize d of
                             [] \<Rightarrow> Inl IndexError
                           | r # _ \<Rightarrow> Inr (np_zeros [1, r, r, 3])))
                else Inr visual_frame) of
        Inl e \<Rightarrow> Inl e
      | Inr v \<Rightarrow> np_transpose_0312 v)"

text \<open>
  One pass of the loop body, lines 70 to 89; both blocks are cast to \<^verbatim>\<open>float32\<close>
  when they are appended (lines 84 and 89).
\<close>

definition segment ::
  "generator \<Rightarrow> clip \<Rightarrow> int \<Rightarrow> int \<Rightarrow> fl \<Rightarrow> fl \<Rightarrow> event list \<Rightarrow>
   (error + ndarray \<times> ndarray) \<times> event list" where
  "segment g c visual_num_samples audio_num_samples start_time end_time s =
     (let s1 = s @ [VisualRange start_time end_time] in
      case iter_frames c start_time end_time of
        Inl e \<Rightarrow> (Inl e, s1)
      | Inr frames \<Rightarrow>
      (case np_stack frames of
        Inl e \<Rightarrow> (Inl e, s1)
      | Inr visual_frame \<Rightarrow>
      (case nd_slice_to visual_num_samples visual_frame of
        Inl e \<Rightarrow> (Inl e, s1)
      | Inr visual_frame' \<Rightarrow>
      (case visual_post g visual_frame' of
        Inl e \<Rightarrow> (Inl e, s1)
      | Inr visual_block \<Rightarrow>
      (let s2 = s1 @ [AudioRange start_time end_time] in
       case audio_iter_frames c start_time end_time of
         Inl e \<Rightarrow> (Inl e, s2)
       | Inr aframes \<Rightarrow>
       (case audio_mean aframes of
         Inl e \<Rightarrow> (Inl e, s2)
       | Inr m \<Rightarrow>
           (Inr (nd_astype32 visual_block,
                 nd_astype32 (nd_vector (py_slice_to audio_num_samples m))), s2)))))))"

text \<open>
  The loop of lines 69 to 89 over the consecutive pairs of timestamps; the two lists
  are \<^verbatim>\<open>visual_frames\<close> and \<^verbatim>\<open>audio_frames\<close>.
\<close>

fun segments ::
  "generator \<Rightarrow> clip \<Rightarrow> int \<Rightarrow> int \<Rightarrow> fl list \<Rightarrow> event list \<Rightarrow>
   (error + ndarray list \<times> ndarray list) \<times> event list" where
  "segments g c vn an (t0 # t1 # ts) s =
     (case segment g c vn an t0 t1 s of
        (Inl e, s') \<Rightarrow> (Inl e, s')
      | (Inr (v, a), s') \<Rightarrow>
          (case segments g c vn an (t1 # ts) s' of
             (Inl e, s'') \<Rightarrow> (Inl e, s'')
           | (Inr (vs, afs), s'') \<Rightarrow> (Inr (v # vs, a # afs), s'')))"
| "segments g c vn an ts s = (Inr ([], []), s)"

text \<open>What \<^verbatim>\<open>_get_samples\<close> returns.\<close>

record samples =
  audio_frames :: ndarray
  visual_frames :: ndarray
  labels :: ndarray
  seq_num :: int
  num_samples :: "int list"
  attrs_name :: "string list"

text \<open>
  \<^verbatim>\<open>_get_samples\<close>, lines 55 to 97. The stacked arrays and the labels are cast to
  \<^verbatim>\<open>float32\<close> once more on lines 91 to 93.
\<close>

definition get_samples ::
  "media \<Rightarrow> generator \<Rightarrow> string \<Rightarrow> string \<Rightarrow> event list \<Rightarrow>
   (error + samples) \<times> event list" where
  "get_samples m g data_file label_file s =
     (let s1 = s @ [ReadLabels label_file] in
      case labelfile_reader g label_file of
        Inl e \<Rightarrow> (Inl e, s1)
      | Inr (file_data, names) \<Rightarrow>
      (case np_array_rows file_data of
        Inl e \<Rightarrow> (Inl e, s1)
      | Inr rows \<Rightarrow>
      (case column0 rows of
        Inl e \<Rightarrow> (Inl e, s1)
      | Inr timestamps \<Rightarrow>
      (let lab = label_rows rows;
           s2 = s1 @ [OpenClip data_file] in
       case m data_file of
         Inl e \<Rightarrow> (Inl e, s2)
       | Inr c \<Rightarrow>
           if \<not> has_audio c then (Inl AttributeError, s2)
           else
             (let seq = int (hd (shape lab)) - 1 in
              if length timestamps < 2 then (Inl IndexError, s2)
              else
                (case num_samples_of (fps g) (timestamps ! 0) (timestamps ! 1) of
                   Inl e \<Rightarrow> (Inl e, s2)
                 | Inr visual_num_samples \<Rightarrow>
                 (case num_samples_of (sr g) (timestamps ! 0) (timestamps ! 1) of
                   Inl e \<Rightarrow> (Inl e, s2)
                 | Inr audio_num_samples \<Rightarrow>
                 (case segments g c visual_num_samples audio_num_samples timestamps s2 of
                   (Inl e, s3) \<Rightarrow> (Inl e, s3)
                 | (Inr (vs, afs), s3) \<Rightarrow>
                 (case np_stack vs of
                    Inl e \<Rightarrow> (Inl e, s3)
                  | Inr visual \<Rightarrow>
                  (case np_stack afs of
                     Inl e \<Rightarrow> (Inl e, s3)
                   | Inr audio \<Rightarrow>
                       (Inr \<lparr>audio_frames = nd_astype32 audio,
                             visual_frames = nd_astype32 visual,
                             labels = nd_astype32 lab,
                             seq_num = seq,
                             num_samples = [audio_num_samples, visual_num_samples],
                             attrs_name = names\<rparr>, s3)))))))))))"

subsection \<open>The HDF5 writer\<close>

datatype attr =
    AStr string
  | AInt int
  | AIntList "int list"
  | AStrList "string list"

record h5file =
  datasets :: "string \<rightharpoonup> ndarray"
  attrs :: "string \<rightharpoonup> attr"

text \<open>\<^verbatim>\<open>writer.create_dataset(name, data=d)\<close>: h5py refuses a name that exists.\<close>

definition create_dataset :: "h5file \<Rightarrow> string \<Rightarrow> ndarray \<Rightarrow> error + h5file" where
  "create_dataset w name d =
     (case datasets w name of
        Some _ \<Rightarrow> Inl ValueError
      | None \<Rightarrow> Inr (w\<lparr>datasets := (datasets w)(name \<mapsto> d)\<rparr>))"

definition set_attr :: "h5file \<Rightarrow> string \<Rightarrow> attr \<Rightarrow> h5file" where
  "set_attr w name v = w\<lparr>attrs := (attrs w)(name \<mapsto> v)\<rparr>"

text \<open>\<^verbatim>\<open>serialize_samples\<close>, lines 108 to 123.\<close>

definition serialize_samples ::
  "media \<Rightarrow> generator \<Rightarrow> h5file \<Rightarrow> string \<Rightarrow> string \<Rightarrow> event list \<Rightarrow>
   (error + h5file) \<times> event list" where
  "serialize_samples m g writer data_file label_file s =
     (case get_samples m g data_file label_file s of
        (Inl e, s') \<Rightarrow> (Inl e, s')
      | (Inr r, s') \<Rightarrow>
      (case create_dataset writer ''audio'' (audio_frames r) of
        Inl e \<Rightarrow> (Inl e, s')
      | Inr w1 \<Rightarrow>
      (case create_dataset w1 ''visual'' (visual_frames r) of
        Inl e \<Rightarrow> (Inl e, s')
      | Inr w2 \<Rightarrow>
      (case create_dataset w2 ''labels'' (labels r) of
        Inl e \<Rightarrow> (Inl e, s')
      | Inr w3 \<Rightarrow>
          (let w4 = set_attr w3 ''data_file'' (AStr data_file);
               w5 = set_attr w4 ''label_file'' (AStr label_file);
               w6 = set_attr w5 ''seq_num'' (AInt (seq_num r));
               w7 = set_attr w6 ''num_samples'' (AIntList (num_samples r));
               w8 = set_attr w7 ''label_names'' (AStrList (drop 1 (attrs_name r)))
           in (Inr w8, s'))))))"

subsection \<open>Reading an entry of a stacked array\<close>

text \<open>
  \<^verbatim>\<open>a[i]\<close> for \<open>i\<close> below the first dimension: the \<open>i\<close>-th entry along the first
  axis. The source never indexes its tensors; the properties of single segments are
  stated with it.
\<close>

definition nd_row :: "ndarray \<Rightarrow> nat \<Rightarrow> ndarray" where
  "nd_row a i =
     (let p = prod_list (tl (shape a))
      in \<lparr>shape = tl (shape a), data = take p (drop (i * p) (data a))\<rparr>)"

subsection \<open>A small recording\<close>

text \<open>
  Example collaborators for concrete runs. The clip \<^verbatim>\<open>clip.mp4\<close> yields, in every
  interval, two video frames of one pixel with three channels and three stereo audio
  frames, whose values are the bounds of the interval. The clip \<^verbatim>\<open>long.mp4\<close> yields,
  in every interval, the same three video frames of two pixels and the same five stereo
  audio frames; one of its pixel values and one of its audio samples are not
  \<^verbatim>\<open>float32\<close> numbers. The label file has three columns. The face extractor returns
  its input and, when \<open>strict\<close>, rejects a block whose first value is 0.
\<close>

definition ex_frame :: "fl \<Rightarrow> ndarray" where
  "ex_frame v = \<lparr>shape = [1, 1, 3], data = [v, v, v]\<rparr>"

definition ex_clip :: clip where
  "ex_clip = \<lparr>has_audio = True,
              iter_frames = (\<lambda>s e. Inr [ex_frame s, ex_frame e]),
              audio_iter_frames = (\<lambda>s e. Inr [[s, e], [e, s], [Fin 1, Fin 3]])\<rparr>"

definition ex_pixels :: "real list \<Rightarrow> ndarray" where
  "ex_pixels vs = \<lparr>shape = [1, 2, 3], data = map Fin vs\<rparr>"

definition ex_clip3 :: clip where
  "ex_clip3 = \<lparr>has_audio = True,
               iter_frames =
                 (\<lambda>s e. Inr [ex_pixels [1, 2, 3, 4, 5, 6],
                             ex_pixels [11, 12, 13, 14, 15, 33554433],
                             ex_pixels [21, 22, 23, 24, 25, 26]]),
               audio_iter_frames =
                 (\<lambda>s e. Inr [[Fin 1, Fin 3], [Fin 1, Fin (1073741825 / 1073741824)],
                             [Fin 7, Fin 9], [Fin 4, Fin 6], [Fin 0, Fin 2]])\<rparr>"

definition ex_media :: media where
  "ex_media f =
     (if f = ''clip.mp4'' then Inr ex_clip
      else if f = ''long.mp4'' then Inr ex_clip3
      else Inl (External ''no such file''))"

definition ex_names :: "string list" where
  "ex_names = [''time'', ''arousal'', ''valence'']"

definition ex_reader :: "fl list list \<Rightarrow> string \<Rightarrow> error + (fl list list \<times> string list)" where
  "ex_reader rows f =
     (if f = ''labels.csv'' then Inr (rows, ex_names)
      else Inl (External ''no such file''))"

definition ex_extractor :: "bool \<Rightarrow> face_extractor" where
  "ex_extractor strict =
     \<lparr>resize = [1, 1],
      extract_and_resize_face =
        (\<lambda>a. if strict \<and> hd (data a) = Fin 0 then Inl (External ''no face'') else Inr a),
      truthy = True\<rparr>"

definition ex_gen :: "bool \<Rightarrow> fl list list \<Rightarrow> int \<Rightarrow> int \<Rightarrow> generator" where
  "ex_gen strict rows f r =
     init (ex_extractor False) (ex_reader rows) (Some (ex_extractor strict)) f r"

text \<open>A label table with the given timestamps and the labels 5 and 7 in every row.\<close>

definition ex_rows :: "real list \<Rightarrow> fl list list" where
  "ex_rows ts = map (\<lambda>t. [Fin t, Fin 5, Fin 7]) ts"

definition ex_rows2 :: "fl list list" where
  "ex_rows2 = [[Fin 0, Fin 5, Fin 7], [Fin 1, Fin 6, Fin 8]]"

definition ex_rows3 :: "fl list list" where
  "ex_rows3 = [[Fin 0, Fin 5, Fin 7], [Fin 1, Fin 6, Fin 8], [Fin 2, Fin 7, Fin 9]]"

definition ex_writer :: h5file where
  "ex_writer = \<lparr>datasets = Map.empty, attrs = Map.empty\<rparr>"

section \<open>Properties\<close>

subsection \<open>Floating-point rounding\<close>

lemma ilog2_bounds: "0 < x \<Longrightarrow> 2 powi ilog2 x \<le> x \<and> x < 2 powi (ilog2 x + 1)"
proof (induction x rule: ilog2.induct)
  case (1 x)
  show ?case
  proof (cases "x < 1")
    case True
    with 1 have "2 powi ilog2 (x * 2) \<le> x * 2 \<and> x * 2 < 2 powi (ilog2 (x * 2) + 1)" by simp
    moreover have "ilog2 x = ilog2 (x * 2) - 1" using True 1(3) by (subst ilog2.simps) simp
    ultimately show ?thesis
      by (simp add: power_int_diff power_int_add)
  next
    case False
    show ?thesis
    proof (cases "2 \<le> x")
      case True
      with 1 False have "2 powi ilog2 (x / 2) \<le> x / 2 \<and> x / 2 < 2 powi (ilog2 (x / 2) + 1)" by simp
      moreover have "ilog2 x = ilog2 (x / 2) + 1" using True False 1(3) by (subst ilog2.simps) simp
      ultimately show ?thesis
        by (simp add: power_int_diff power_int_add)
    next
      case F2: False
      then have "ilog2 x = 0" using False 1(3) by (subst ilog2.simps) simp
      with False F2 show ?thesis by simp
    qed
  qed
qed

lemma rint_of_int: "rint (of_int n) = n"
  by (simp add: rint_def)

lemma rint_close: "\<bar>of_int (rint x) - x\<bar> \<le> 1 / 2"
  by (auto simp: rint_def Let_def abs_if) linarith+

lemma rint_le: "x \<le> of_int n \<Longrightarrow> rint x \<le> n"
  by (auto simp: rint_def Let_def) linarith+

lemma rint_ge: "of_int n \<le> x \<Longrightarrow> n \<le> rint x"
  by (auto simp: rint_def Let_def) linarith+

lemma rint_abs_le: "\<bar>x\<bar> \<le> of_int n \<Longrightarrow> \<bar>rint x\<bar> \<le> n"
proof -
  assume a: "\<bar>x\<bar> \<le> of_int n"
  then have b: "x \<le> of_int n" "of_int (- n) \<le> x" by simp_all
  have "rint x \<le> n" using b(1) by (rule rint_le)
  moreover have "- n \<le> rint x" using b(2) by (rule rint_ge)
  ultimately show ?thesis by simp
qed

lemma rint_nonneg: "0 \<le> x \<Longrightarrow> 0 \<le> rint x"
  using rint_ge [of 0 x] by simp

lemma rint_nonpos: "x \<le> 0 \<Longrightarrow> rint x \<le> 0"
  using rint_le [of x 0] by simp

text \<open>A multiple of the quantum is not changed.\<close>

lemma round_fl_multiple:
  assumes x: "x = of_int n * 2 powi (max (ilog2 \<bar>x\<bar>) (1 - emax) - int p + 1)"
    and fin: "\<bar>x\<bar> < 2 powi (emax + 1)"
  shows "round_fl p emax x = Fin x"
proof (cases "x = 0")
  case True
  then show ?thesis by (simp add: round_fl_def)
next
  case False
  let ?q = "2 powi (max (ilog2 \<bar>x\<bar>) (1 - emax) - int p + 1) :: real"
  have q: "0 < ?q" by simp
  have "x / ?q = of_int n" using x q
    by (metis nonzero_eq_divide_eq less_numeral_extra(3))
  then have "of_int (rint (x / ?q)) * ?q = x"
    using x by (simp add: rint_of_int)
  with False fin show ?thesis
    by (simp add: round_fl_def Let_def)
qed

lemma round_fl_idem:
  assumes p: "0 < p" and r: "round_fl p emax x = Fin y"
  shows "round_fl p emax y = Fin y"
proof (cases "x = 0 \<or> y = 0")
  case True
  with r show ?thesis by (auto simp: round_fl_def)
next
  case False
  then have x0: "x \<noteq> 0" and y0: "y \<noteq> 0" by simp_all
  define e where "e = max (ilog2 \<bar>x\<bar>) (1 - emax)"
  define q :: real where "q = 2 powi (e - int p + 1)"
  define n where "n = rint (x / q)"
  have q: "0 < q" by (simp add: q_def)
  from r x0 have y: "y = of_int n * q" and fin: "\<bar>y\<bar> < 2 powi (emax + 1)"
    by (auto simp: round_fl_def Let_def e_def q_def n_def split: if_splits)
  define e' where "e' = max (ilog2 \<bar>y\<bar>) (1 - emax)"
  have xb: "\<bar>x\<bar> < 2 powi (e + 1)"
  proof -
    have "\<bar>x\<bar> < 2 powi (ilog2 \<bar>x\<bar> + 1)" using ilog2_bounds [of "\<bar>x\<bar>"] x0 by simp
    also have "\<dots> \<le> 2 powi (e + 1)" by (intro power_int_increasing) (simp_all add: e_def)
    finally show ?thesis .
  qed
  have "\<bar>x / q\<bar> < 2 ^ p"
  proof -
    have "\<bar>x / q\<bar> = \<bar>x\<bar> / q" using q by simp
    also have "\<dots> < 2 powi (e + 1) / q" using xb q by (simp add: divide_strict_right_mono)
    also have "\<dots> = 2 powi int p" by (simp add: q_def power_int_diff power_int_add)
    finally show ?thesis by simp
  qed
  then have "\<bar>x / q\<bar> \<le> of_int (2 ^ p)" by simp
  then have nb: "\<bar>n\<bar> \<le> 2 ^ p" unfolding n_def by (rule rint_abs_le)
  have "\<exists>m. y = of_int m * 2 powi (e' - int p + 1)"
  proof (cases "e' \<le> e")
    case True
    have "(2::real) powi ((e - e') + (e' - int p + 1)) = 2 powi (e - e') * 2 powi (e' - int p + 1)"
      by (rule power_int_add) simp
    then have "q = 2 powi (e - e') * 2 powi (e' - int p + 1)"
      unfolding q_def by (simp add: algebra_simps)
    moreover have "(2::real) powi (e - e') = of_int (2 ^ nat (e - e'))"
      using True by (simp add: power_int_def)
    ultimately have "y = of_int (n * 2 ^ nat (e - e')) * 2 powi (e' - int p + 1)"
      using y by simp
    then show ?thesis by blast
  next
    case False
    then have gt: "e < e'" by simp
    then have e'_eq: "e' = ilog2 \<bar>y\<bar>" unfolding e'_def e_def by linarith
    have lo: "2 powi e' \<le> \<bar>y\<bar>" using ilog2_bounds [of "\<bar>y\<bar>"] y0 e'_eq by simp
    have "\<bar>y\<bar> = of_int \<bar>n\<bar> * q" using y q by (simp add: abs_mult)
    also have "\<dots> \<le> of_int (2 ^ p) * q"
    proof (rule mult_right_mono)
      show "(of_int \<bar>n\<bar> :: real) \<le> of_int (2 ^ p)" using nb by (simp only: of_int_le_iff)
      show "0 \<le> q" using q by simp
    qed
    also have "\<dots> = 2 powi (e + 1)"
      by (simp add: q_def power_int_diff power_int_add)
    finally have hi: "\<bar>y\<bar> \<le> 2 powi (e + 1)" .
    have le: "(2::real) powi e' \<le> 2 powi (e + 1)" using lo hi by linarith
    have "e' \<le> e + 1"
    proof (rule ccontr)
      assume "\<not> e' \<le> e + 1"
      then have "e + 1 < e'" by simp
      then have "(2::real) powi (e + 1) < 2 powi e'"
        by (intro power_int_strict_increasing) simp_all
      with le show False by simp
    qed
    with gt have e': "e' = e + 1" by simp
    with lo hi have ay: "\<bar>y\<bar> = 2 powi (e + 1)" by simp
    then have "y = 2 powi (e + 1) \<or> y = - (2 powi (e + 1))" by (auto simp: abs_if split: if_splits)
    moreover have "(2::real) powi (e + 1) = of_int (2 ^ (p - 1)) * 2 powi (e' - int p + 1)"
    proof -
      have ip: "int (p - 1) = int p - 1" using p by simp
      have "e + 1 = int (p - 1) + (e' - int p + 1)" unfolding e' ip by simp
      then have "(2::real) powi (e + 1) = 2 powi (int (p - 1) + (e' - int p + 1))"
        by (rule arg_cong)
      also have "\<dots> = 2 powi int (p - 1) * 2 powi (e' - int p + 1)"
        by (rule power_int_add) simp
      finally have "(2::real) powi (e + 1) = 2 powi int (p - 1) * 2 powi (e' - int p + 1)" .
      then show ?thesis by simp
    qed
    ultimately have "y = of_int (2 ^ (p - 1)) * 2 powi (e' - int p + 1) \<or>
        y = of_int (- (2 ^ (p - 1))) * 2 powi (e' - int p + 1)"
      by auto
    then show ?thesis by blast
  qed
  then obtain m where "y = of_int m * 2 powi (max (ilog2 \<bar>y\<bar>) (1 - emax) - int p + 1)"
    unfolding e'_def by blast
  from round_fl_multiple [OF this fin] show ?thesis .
qed

lemma ilog2_eq:
  assumes "2 powi e \<le> x" and "x < 2 powi (e + 1)"
  shows "ilog2 x = e"
proof -
  have "(0::real) < 2 powi e" by simp
  with assms(1) have x: "0 < x" by linarith
  note b = ilog2_bounds [OF x]
  have "\<not> ilog2 x < e"
  proof
    assume "ilog2 x < e"
    then have "ilog2 x + 1 \<le> e" by simp
    then have "(2::real) powi (ilog2 x + 1) \<le> 2 powi e" by (intro power_int_increasing) simp_all
    with b assms show False by linarith
  qed
  moreover have "\<not> e < ilog2 x"
  proof
    assume "e < ilog2 x"
    then have "e + 1 \<le> ilog2 x" by simp
    then have "(2::real) powi (e + 1) \<le> 2 powi ilog2 x" by (intro power_int_increasing) simp_all
    with b assms show False by linarith
  qed
  ultimately show ?thesis by simp
qed

lemma rint_eq: "\<bar>x - of_int n\<bar> < 1 / 2 \<Longrightarrow> rint x = n"
proof -
  assume a: "\<bar>x - of_int n\<bar> < 1 / 2"
  have "\<bar>of_int (rint x) - x\<bar> \<le> 1 / 2" by (rule rint_close)
  with a have "\<bar>(of_int (rint x) :: real) - of_int n\<bar> < 1" by linarith
  then have "\<bar>rint x - n\<bar> < 1" by (metis of_int_diff of_int_abs of_int_less_1_iff)
  then show ?thesis by simp
qed

text \<open>A rounding worked out by hand: the exponent and the nearest multiple are given.\<close>

lemma round_fl_eval:
  assumes "2 powi e \<le> \<bar>x\<bar>" and "\<bar>x\<bar> < 2 powi (e + 1)" and "1 - emax \<le> e"
    and "\<bar>x / 2 powi (e - int p + 1) - of_int n\<bar> < 1 / 2"
    and "\<bar>of_int n * 2 powi (e - int p + 1)\<bar> < (2::real) powi (emax + 1)"
  shows "round_fl p emax x = Fin (of_int n * 2 powi (e - int p + 1))"
proof -
  have "\<not> (2::real) powi e \<le> 0" by (simp add: not_le)
  with assms(1) have x: "x \<noteq> 0" by auto
  have e: "max (ilog2 \<bar>x\<bar>) (1 - emax) = e"
    using ilog2_eq [OF assms(1,2)] assms(3) by simp
  have "rint (x / 2 powi (e - int p + 1)) = n" using assms(4) by (rule rint_eq)
  with x e assms(5) show ?thesis by (simp add: round_fl_def Let_def)
qed

text \<open>A number with few enough bits is not changed.\<close>

lemma round_fl_exact:
  assumes x: "x = of_int n * 2 powi k" and n: "\<bar>n\<bar> < 2 ^ p"
    and k: "2 - emax - int p \<le> k" and fin: "\<bar>x\<bar> < 2 powi (emax + 1)"
  shows "round_fl p emax x = Fin x"
proof (cases "x = 0")
  case True
  then show ?thesis by (simp add: round_fl_def)
next
  case False
  define e where "e = max (ilog2 \<bar>x\<bar>) (1 - emax)"
  have le: "e - int p + 1 \<le> k"
  proof (cases "e = 1 - emax")
    case True
    with k show ?thesis by simp
  next
    case F: False
    then have e: "e = ilog2 \<bar>x\<bar>" unfolding e_def by linarith
    have "2 powi e \<le> \<bar>x\<bar>" using ilog2_bounds [of "\<bar>x\<bar>"] False e by simp
    also have "\<bar>x\<bar> = of_int \<bar>n\<bar> * 2 powi k" using x by (simp add: abs_mult)
    also have "\<dots> < of_int (2 ^ p) * 2 powi k"
    proof (rule mult_strict_right_mono)
      show "(of_int \<bar>n\<bar> :: real) < of_int (2 ^ p)" using n by (simp only: of_int_less_iff)
      show "(0::real) < 2 powi k" by simp
    qed
    also have "\<dots> = 2 powi (int p + k)" by (simp add: power_int_add)
    finally have lt: "(2::real) powi e < 2 powi (int p + k)" .
    have "e < int p + k"
    proof (rule ccontr)
      assume "\<not> e < int p + k"
      then have "int p + k \<le> e" by simp
      then have "(2::real) powi (int p + k) \<le> 2 powi e" by (intro power_int_increasing) simp_all
      with lt show False by simp
    qed
    then show ?thesis by simp
  qed
  have "(2::real) powi ((k - (e - int p + 1)) + (e - int p + 1)) =
      2 powi (k - (e - int p + 1)) * 2 powi (e - int p + 1)"
    by (rule power_int_add) simp
  then have "(2::real) powi k = 2 powi (k - (e - int p + 1)) * 2 powi (e - int p + 1)" by simp
  moreover have "(2::real) powi (k - (e - int p + 1)) = of_int (2 ^ nat (k - (e - int p + 1)))"
    using le by (simp add: power_int_def)
  ultimately have "x = of_int (n * 2 ^ nat (k - (e - int p + 1))) * 2 powi (e - int p + 1)"
    using x by simp
  then show ?thesis unfolding e_def using fin by (rule round_fl_multiple)
qed

lemma round_fl_int:
  assumes "\<bar>n\<bar> < 2 ^ p" and "2 - emax - int p \<le> 0" and "int p \<le> emax + 1"
  shows "round_fl p emax (of_int n) = Fin (of_int n)"
proof (rule round_fl_exact [where n = n and k = 0])
  show "(of_int n :: real) = of_int n * 2 powi 0" by simp
  show "\<bar>n\<bar> < 2 ^ p" by fact
  show "2 - emax - int p \<le> 0" by fact
  have "(of_int \<bar>n\<bar> :: real) < of_int (2 ^ p)" using assms(1) by (simp only: of_int_less_iff)
  then have "\<bar>of_int n :: real\<bar> < 2 ^ p" by simp
  also have "(2::real) ^ p = 2 powi int p" by simp
  also have "\<dots> \<le> 2 powi (emax + 1)" using assms(3) by (intro power_int_increasing) simp_all
  finally show "\<bar>of_int n :: real\<bar> < 2 powi (emax + 1)" .
qed

lemma r32_int: "\<bar>n\<bar> < 2 ^ 24 \<Longrightarrow> r32 (of_int n) = Fin (of_int n)"
  unfolding r32_def by (rule round_fl_int) simp_all

lemma r64_int: "\<bar>n\<bar> < 2 ^ 53 \<Longrightarrow> r64 (of_int n) = Fin (of_int n)"
  unfolding r64_def by (rule round_fl_int) simp_all

lemma r32_numeral: "(numeral w :: int) < 16777216 \<Longrightarrow> r32 (numeral w) = Fin (numeral w)"
  using r32_int [of "numeral w"] by simp

lemma r64_numeral:
  "(numeral w :: int) < 9007199254740992 \<Longrightarrow> r64 (numeral w) = Fin (numeral w)"
  using r64_int [of "numeral w"] by simp

lemma r32_0: "r32 0 = Fin 0" and r32_1: "r32 1 = Fin 1"
  using r32_int [of 0] r32_int [of 1] by simp_all

lemma r64_0: "r64 0 = Fin 0" and r64_1: "r64 1 = Fin 1"
  using r64_int [of 0] r64_int [of 1] by simp_all

lemma round_fl_nonneg: "0 \<le> x \<Longrightarrow> round_fl p emax x = Fin y \<Longrightarrow> 0 \<le> y"
  by (auto simp: round_fl_def Let_def split: if_splits intro!: mult_nonneg_nonneg rint_nonneg)

lemma cast32_idem: "cast32 (cast32 v) = cast32 v"
proof (cases v)
  case (Fin x)
  show ?thesis
  proof (cases "r32 x")
    case (Fin y)
    then have "round_fl 24 127 y = Fin y"
      unfolding r32_def by (intro round_fl_idem [of 24 127 x]) simp_all
    with Fin \<open>v = Fin x\<close> show ?thesis by (simp add: r32_def)
  qed (use Fin in simp_all)
qed simp_all

lemma nd_astype32_idem: "nd_astype32 (nd_astype32 a) = nd_astype32 a"
  by (simp add: nd_astype32_def cast32_idem)

lemma rint_0: "rint 0 = 0" and rint_1: "rint 1 = 1"
  using rint_of_int [of 0] rint_of_int [of 1] by simp_all

lemma rint_numeral: "rint (numeral w) = numeral w"
  using rint_of_int [of "numeral w"] by simp

lemma rint_tie_even: "\<bar>x - of_int (rint x)\<bar> = 1 / 2 \<Longrightarrow> even (rint x)"
  by (auto simp: rint_def Let_def abs_if split: if_splits) linarith+

subsection \<open>The loop and the arrays\<close>

lemma segment_state:
  "segment g c vn an a b s =
   (fst (segment g c vn an a b []), s @ snd (segment g c vn an a b []))"
  by (simp add: segment_def Let_def split: sum.splits)

lemma segment_Inr_trace:
  "fst (segment g c vn an t0 t1 s) = Inr p \<Longrightarrow>
   snd (segment g c vn an t0 t1 s) = s @ [VisualRange t0 t1, AudioRange t0 t1]"
  by (auto simp: segment_def Let_def split: sum.splits)

lemma np_stack_Inr:
  assumes "np_stack xs = Inr a" and "xs \<noteq> []"
  shows "shape a = length xs # shape (hd xs)" and "data a = concat (map data xs)"
    and "\<forall>x\<in>set xs. shape x = shape (hd xs)"
  using assms
  by (auto simp: np_stack_def list_all_iff split: list.splits if_splits)

lemma np_stack_same_shape:
  assumes "xs \<noteq> []" and "\<forall>x\<in>set xs. shape x = shp"
  shows "np_stack xs = Inr \<lparr>shape = length xs # shp, data = concat (map data xs)\<rparr>"
  using assms by (cases xs) (auto simp: np_stack_def list_all_iff)

lemma np_stack_mixed:
  assumes "x \<in> set xs" and "y \<in> set xs" and "shape x \<noteq> shape y"
  shows "np_stack xs = Inl ValueError"
proof (cases xs)
  case Nil
  with assms show ?thesis by simp
next
  case (Cons a as)
  have "shape x \<noteq> shape a \<or> shape y \<noteq> shape a"
    using assms(3) by auto
  then have "\<not> list_all (\<lambda>b. shape b = shape a) xs"
    using assms(1,2) by (auto simp: list_all_iff)
  with Cons show ?thesis by (simp add: np_stack_def)
qed

lemma concat_equal_chunks:
  "\<forall>x\<in>set xss. length x = p \<Longrightarrow> i < length xss \<Longrightarrow>
   take p (drop (i * p) (concat xss)) = xss ! i"
proof (induction xss arbitrary: i)
  case Nil
  then show ?case by simp
next
  case (Cons x xss)
  then have len: "length x = p" by simp
  show ?case
  proof (cases i)
    case 0
    with len show ?thesis by simp
  next
    case (Suc j)
    with Cons.prems have "j < length xss" by simp
    with Cons have "take p (drop (j * p) (concat xss)) = xss ! j" by simp
    with Suc len show ?thesis by simp
  qed
qed

lemma np_stack_row:
  assumes "np_stack xs = Inr a" and "i < length xs" and "\<forall>x\<in>set xs. wf_nd x"
  shows "nd_row a i = xs ! i"
proof -
  from assms(2) have ne: "xs \<noteq> []" by auto
  note st = np_stack_Inr [OF assms(1) ne]
  let ?p = "prod_list (shape (hd xs))"
  have lens: "\<forall>d\<in>set (map data xs). length d = ?p"
    using st(3) assms(3) by (auto simp: wf_nd_def)
  have "take ?p (drop (i * ?p) (concat (map data xs))) = map data xs ! i"
    using concat_equal_chunks [OF lens] assms(2) by simp
  moreover have "shape (xs ! i) = shape (hd xs)"
    using st(3) assms(2) by simp
  ultimately show ?thesis
    using st(1,2) assms(2) by (simp add: nd_row_def)
qed

lemma nd_row_astype32: "nd_row (nd_astype32 a) i = nd_astype32 (nd_row a i)"
  by (simp add: nd_row_def nd_astype32_def Let_def take_map drop_map)

lemma shape_astype32: "shape (nd_astype32 a) = shape a"
  by (simp add: nd_astype32_def)

lemma wf_astype32: "wf_nd (nd_astype32 a) = wf_nd a"
  by (simp add: nd_astype32_def wf_nd_def)

lemma astype32_zeros: "nd_astype32 (np_zeros shp) = np_zeros shp"
  by (simp add: nd_astype32_def np_zeros_def r32_0)

lemma np_transpose_wf: "np_transpose_0312 x = Inr v \<Longrightarrow> wf_nd v"
  by (auto simp: np_transpose_0312_def wf_nd_def Let_def split: if_splits)

lemma visual_post_wf: "visual_post g x = Inr v \<Longrightarrow> wf_nd v"
  by (auto simp: visual_post_def split: sum.splits dest: np_transpose_wf)

lemma nd_vector_wf: "wf_nd (nd_vector xs)"
  by (simp add: nd_vector_def wf_nd_def)

lemma segments_state:
  "segments g c vn an ts s =
   (fst (segments g c vn an ts []), s @ snd (segments g c vn an ts []))"
proof (induction ts arbitrary: s)
  case Nil
  show ?case by simp
next
  case (Cons t0 rest)
  show ?case
  proof (cases rest)
    case Nil
    then show ?thesis by simp
  next
    case (Cons t1 ts')
    obtain r e where seg: "segment g c vn an t0 t1 [] = (r, e)"
      by (cases "segment g c vn an t0 t1 []")
    then have seg_s: "segment g c vn an t0 t1 s = (r, s @ e)"
      using segment_state [of g c vn an t0 t1 s] by simp
    obtain r2 e2 where rest: "segments g c vn an rest [] = (r2, e2)"
      by (cases "segments g c vn an rest []")
    have at_e: "segments g c vn an rest e = (r2, e @ e2)"
      using Cons.IH [of e] rest by simp
    have at_se: "segments g c vn an rest (s @ e) = (r2, s @ e @ e2)"
      using Cons.IH [of "s @ e"] rest by simp
    show ?thesis
      using seg seg_s at_e at_se unfolding Cons
      by (simp split: sum.splits prod.splits)
  qed
qed

lemma segments_Inr_Cons:
  assumes "segments g c vn an (t0 # t1 # ts) s = (Inr (vs, afs), s')"
  obtains v a vs' afs' s1 where
    "segment g c vn an t0 t1 s = (Inr (v, a), s1)"
    "segments g c vn an (t1 # ts) s1 = (Inr (vs', afs'), s')"
    "vs = v # vs'" "afs = a # afs'"
  using assms by (auto split: sum.splits prod.splits)

lemma segments_char:
  "segments g c vn an ts s = (Inr (vs, afs), s') \<Longrightarrow>
   length vs = length ts - 1 \<and> length afs = length ts - 1 \<and>
   (\<forall>i. Suc i < length ts \<longrightarrow>
      fst (segment g c vn an (ts ! i) (ts ! Suc i) []) = Inr (vs ! i, afs ! i))"
proof (induction ts arbitrary: s vs afs)
  case Nil
  then show ?case by simp
next
  case (Cons t0 rest)
  show ?case
  proof (cases rest)
    case Nil
    with Cons.prems show ?thesis by simp
  next
    case (Cons t1 ts')
    from Cons.prems [unfolded Cons] obtain v a vs' afs' s1 where
      seg: "segment g c vn an t0 t1 s = (Inr (v, a), s1)" and
      rest: "segments g c vn an (t1 # ts') s1 = (Inr (vs', afs'), s')" and
      eq: "vs = v # vs'" "afs = a # afs'"
      by (rule segments_Inr_Cons)
    have seg0: "fst (segment g c vn an t0 t1 []) = Inr (v, a)"
      using seg segment_state [of g c vn an t0 t1 s] by simp
    have IH: "length vs' = length rest - 1 \<and> length afs' = length rest - 1 \<and>
       (\<forall>i. Suc i < length rest \<longrightarrow>
         fst (segment g c vn an (rest ! i) (rest ! Suc i) []) = Inr (vs' ! i, afs' ! i))"
      using Cons.IH [of s1 vs' afs'] rest Cons by simp
    show ?thesis
    proof (intro conjI allI impI)
      show "length vs = length (t0 # rest) - 1" using IH eq Cons by simp
      show "length afs = length (t0 # rest) - 1" using IH eq Cons by simp
      fix i assume "Suc i < length (t0 # rest)"
      then show "fst (segment g c vn an ((t0 # rest) ! i) ((t0 # rest) ! Suc i) []) =
          Inr (vs ! i, afs ! i)"
        using IH seg0 eq Cons by (cases i) simp_all
    qed
  qed
qed

lemma segments_pointwise:
  assumes "segments g c vn an ts s = (Inr (vs, afs), s')"
    and "length vs2 = length vs"
    and "\<And>j. Suc j < length ts \<Longrightarrow>
           fst (segment g2 c vn an (ts ! j) (ts ! Suc j) []) = Inr (vs2 ! j, afs ! j)"
  shows "segments g2 c vn an ts s = (Inr (vs2, afs), s')"
  using assms
proof (induction ts arbitrary: s vs afs vs2)
  case Nil
  then show ?case by simp
next
  case (Cons t0 rest)
  show ?case
  proof (cases rest)
    case Nil
    with Cons.prems show ?thesis by simp
  next
    case (Cons t1 ts')
    from Cons.prems(1) [unfolded Cons] obtain v a vs' afs' s1 where
      seg: "segment g c vn an t0 t1 s = (Inr (v, a), s1)" and
      rest: "segments g c vn an (t1 # ts') s1 = (Inr (vs', afs'), s')" and
      eq: "vs = v # vs'" "afs = a # afs'"
      by (rule segments_Inr_Cons)
    from seg have s1: "s1 = s @ [VisualRange t0 t1, AudioRange t0 t1]"
      using segment_Inr_trace [of g c vn an t0 t1 s "(v, a)"] by simp
    from Cons.prems(2) eq obtain w ws where vs2: "vs2 = w # ws" "length ws = length vs'"
      by (cases vs2) auto
    have "fst (segment g2 c vn an t0 t1 []) = Inr (w, a)"
      using Cons.prems(3) [of 0] Cons vs2 eq by simp
    then have seg2: "segment g2 c vn an t0 t1 s = (Inr (w, a), s1)"
      using segment_state [of g2 c vn an t0 t1 s]
        segment_Inr_trace [of g2 c vn an t0 t1 "[]" "(w, a)"] s1 by simp
    have "segments g2 c vn an rest s1 = (Inr (ws, afs'), s')"
    proof (rule Cons.IH)
      show "segments g c vn an rest s1 = (Inr (vs', afs'), s')" using rest Cons by simp
      show "length ws = length vs'" by (rule vs2(2))
      fix j assume "Suc j < length rest"
      then show "fst (segment g2 c vn an (rest ! j) (rest ! Suc j) []) =
          Inr (ws ! j, afs' ! j)"
        using Cons.prems(3) [of "Suc j"] vs2 eq by simp
    qed
    with seg2 vs2 eq Cons show ?thesis by simp
  qed
qed

lemma segment_Inr:
  assumes "fst (segment g c vn an t0 t1 s) = Inr (v, a)"
  obtains fr st inp vb af where
    "iter_frames c t0 t1 = Inr fr" "np_stack fr = Inr st" "nd_slice_to vn st = Inr inp"
    "visual_post g inp = Inr vb" "v = nd_astype32 vb"
    "audio_iter_frames c t0 t1 = Inr af" "audio_mean af = Inr (map mean64 af)"
    "a = nd_astype32 (nd_vector (py_slice_to an (map mean64 af)))"
proof -
  from assms obtain fr where 1: "iter_frames c t0 t1 = Inr fr"
    by (auto simp: segment_def Let_def split: sum.splits)
  from assms 1 obtain st where 2: "np_stack fr = Inr st"
    by (auto simp: segment_def Let_def split: sum.splits)
  from assms 1 2 obtain inp where 3: "nd_slice_to vn st = Inr inp"
    by (auto simp: segment_def Let_def split: sum.splits)
  from assms 1 2 3 obtain vb where 4: "visual_post g inp = Inr vb"
    by (auto simp: segment_def Let_def split: sum.splits)
  from assms 1 2 3 4 obtain af where 5: "audio_iter_frames c t0 t1 = Inr af"
    by (auto simp: segment_def Let_def split: sum.splits)
  from assms 1 2 3 4 5 obtain mm where 6: "audio_mean af = Inr mm"
    by (auto simp: segment_def Let_def split: sum.splits)
  then have 7: "mm = map mean64 af"
    by (auto simp: audio_mean_def split: list.splits if_splits)
  from assms 1 2 3 4 5 6 have 8: "v = nd_astype32 vb"
    "a = nd_astype32 (nd_vector (py_slice_to an mm))"
    by (auto simp: segment_def Let_def)
  show ?thesis using that [OF 1 2 3 4 _ 5] 6 7 8 by simp
qed

lemma segment_blocks:
  assumes "fst (segment g c vn an t0 t1 s) = Inr (v, a)"
  shows "wf_nd v" "wf_nd a" "nd_astype32 v = v" "nd_astype32 a = a"
  using assms
  by (elim segment_Inr; simp add: wf_astype32 visual_post_wf nd_vector_wf nd_astype32_idem)+

lemma segments_wf:
  assumes "segments g c vn an ts s = (Inr (vs, afs), s')"
  shows "\<forall>x\<in>set vs. wf_nd x \<and> nd_astype32 x = x" and "\<forall>x\<in>set afs. wf_nd x \<and> nd_astype32 x = x"
proof -
  note ch = segments_char [OF assms]
  { fix i assume i: "i < length vs"
    with ch have "fst (segment g c vn an (ts ! i) (ts ! Suc i) []) = Inr (vs ! i, afs ! i)"
      by auto
    note segment_blocks [OF this] }
  then show "\<forall>x\<in>set vs. wf_nd x \<and> nd_astype32 x = x"
    "\<forall>x\<in>set afs. wf_nd x \<and> nd_astype32 x = x"
    using ch by (auto simp: in_set_conv_nth)
qed

subsection \<open>Values of the small recording\<close>

text \<open>
  The roundings that occur in the example runs, each checked against the bounds of
  \<open>round_fl_eval\<close>.
\<close>

lemma r32_1_25: "r32 (1 / 25) = Fin (5368709 / 134217728)"
proof -
  have "round_fl 24 127 (1 / 25) = Fin (of_int (10737418) * 2 powi (- 5 - int 24 + 1))"
    by (rule round_fl_eval) simp_all
  then show ?thesis by (simp add: r32_def)
qed

lemma r32_9_10: "r32 (9 / 10) = Fin (7549747 / 8388608)"
proof -
  have "round_fl 24 127 (9 / 10) = Fin (of_int (15099494) * 2 powi (- 1 - int 24 + 1))"
    by (rule round_fl_eval) simp_all
  then show ?thesis by (simp add: r32_def)
qed

lemma r32_half: "r32 (1 / 2) = Fin (1 / 2)"
proof -
  have "round_fl 24 127 (1 / 2) = Fin (of_int (8388608) * 2 powi (- 1 - int 24 + 1))"
    by (rule round_fl_eval) simp_all
  then show ?thesis by (simp add: r32_def)
qed

lemma r32_3_2: "r32 (3 / 2) = Fin (3 / 2)"
proof -
  have "round_fl 24 127 (3 / 2) = Fin (of_int (12582912) * 2 powi (0 - int 24 + 1))"
    by (rule round_fl_eval) simp_all
  then show ?thesis by (simp add: r32_def)
qed

lemma r64_half: "r64 (1 / 2) = Fin (1 / 2)"
proof -
  have "round_fl 53 1023 (1 / 2) = Fin (of_int (4503599627370496) * 2 powi (- 1 - int 53 + 1))"
    by (rule round_fl_eval) simp_all
  then show ?thesis by (simp add: r64_def)
qed

lemma r64_3_2: "r64 (3 / 2) = Fin (3 / 2)"
proof -
  have "round_fl 53 1023 (3 / 2) = Fin (of_int (6755399441055744) * 2 powi (0 - int 53 + 1))"
    by (rule round_fl_eval) simp_all
  then show ?thesis by (simp add: r64_def)
qed

lemma r32_big: "r32 (33554433) = Fin (33554432)"
proof -
  have "round_fl 24 127 (33554433) = Fin (of_int (8388608) * 2 powi (25 - int 24 + 1))"
    by (rule round_fl_eval) simp_all
  then show ?thesis by (simp add: r32_def)
qed

lemma r32_big_idem: "r32 (33554432) = Fin (33554432)"
proof -
  have "round_fl 24 127 (33554432) = Fin (of_int (8388608) * 2 powi (25 - int 24 + 1))"
    by (rule round_fl_eval) simp_all
  then show ?thesis by (simp add: r32_def)
qed

lemma r64_fine_sum: "r64 (2147483649 / 1073741824) = Fin (2147483649 / 1073741824)"
proof -
  have "round_fl 53 1023 (2147483649 / 1073741824) = Fin (of_int (4503599629467648) * 2 powi (1 - int 53 + 1))"
    by (rule round_fl_eval) simp_all
  then show ?thesis by (simp add: r64_def)
qed

lemma r64_fine_mean: "r64 (2147483649 / 2147483648) = Fin (2147483649 / 2147483648)"
proof -
  have "round_fl 53 1023 (2147483649 / 2147483648) = Fin (of_int (4503599629467648) * 2 powi (0 - int 53 + 1))"
    by (rule round_fl_eval) simp_all
  then show ?thesis by (simp add: r64_def)
qed

lemma r32_fine_mean: "r32 (2147483649 / 2147483648) = Fin (1)"
proof -
  have "round_fl 24 127 (2147483649 / 2147483648) = Fin (of_int (8388608) * 2 powi (0 - int 24 + 1))"
    by (rule round_fl_eval) simp_all
  then show ?thesis by (simp add: r32_def)
qed

lemma r32_val_12: "r32 (5368709 / 134217728) = Fin (5368709 / 134217728)"
proof -
  have "round_fl 24 127 (5368709 / 134217728) = Fin (of_int (10737418) * 2 powi (- 5 - int 24 + 1))"
    by (rule round_fl_eval) simp_all
  then show ?thesis by (simp add: r32_def)
qed

lemma r64_val_13: "r64 (80530635 / 67108864) = Fin (80530635 / 67108864)"
proof -
  have "round_fl 53 1023 (80530635 / 67108864) = Fin (of_int (5404319432048640) * 2 powi (0 - int 53 + 1))"
    by (rule round_fl_eval) simp_all
  then show ?thesis by (simp add: r64_def)
qed

lemma r64_val_14: "r64 (1258291171875 / 1048576) = Fin (1258291171875 / 1048576)"
proof -
  have "round_fl 53 1023 (1258291171875 / 1048576) = Fin (of_int (5153960640000000) * 2 powi (20 - int 53 + 1))"
    by (rule round_fl_eval) simp_all
  then show ?thesis by (simp add: r64_def)
qed

lemma rint_val_15: "rint (1258291171875 / 1048576) = 1200000"
  by (rule rint_eq) simp

lemma r64_val_16: "r64 (6 / 5) = Fin (5404319552844595 / 4503599627370496)"
proof -
  have "round_fl 53 1023 (6 / 5) = Fin (of_int (5404319552844595) * 2 powi (0 - int 53 + 1))"
    by (rule round_fl_eval) simp_all
  then show ?thesis by (simp add: r64_def)
qed

lemma r64_val_17: "r64 (671088625 / 1048576) = Fin (671088625 / 1048576)"
proof -
  have "round_fl 53 1023 (671088625 / 1048576) = Fin (of_int (5629499408384000) * 2 powi (9 - int 53 + 1))"
    by (rule round_fl_eval) simp_all
  then show ?thesis by (simp add: r64_def)
qed

lemma r64_val_18: "r64 (10485759765625 / 16384) = Fin (10485759765625 / 16384)"
proof -
  have "round_fl 53 1023 (10485759765625 / 16384) = Fin (of_int (5368709000000000) * 2 powi (29 - int 53 + 1))"
    by (rule round_fl_eval) simp_all
  then show ?thesis by (simp add: r64_def)
qed

lemma rint_val_19: "rint (10485759765625 / 16384) = 639999986"
  by (rule rint_eq) simp

lemma r64_val_20: "r64 (319999993 / 500000) = Fin (2814749705533909 / 4398046511104)"
proof -
  have "round_fl 53 1023 (319999993 / 500000) = Fin (of_int (5629499411067818) * 2 powi (9 - int 53 + 1))"
    by (rule round_fl_eval) simp_all
  then show ?thesis by (simp add: r64_def)
qed

lemma r32_val_21: "r32 (7549747 / 8388608) = Fin (7549747 / 8388608)"
proof -
  have "round_fl 24 127 (7549747 / 8388608) = Fin (of_int (15099494) * 2 powi (- 1 - int 24 + 1))"
    by (rule round_fl_eval) simp_all
  then show ?thesis by (simp add: r32_def)
qed

lemma r64_val_22: "r64 (113246205 / 4194304) = Fin (113246205 / 4194304)"
proof -
  have "round_fl 53 1023 (113246205 / 4194304) = Fin (of_int (7599824169861120) * 2 powi (4 - int 53 + 1))"
    by (rule round_fl_eval) simp_all
  then show ?thesis by (simp add: r64_def)
qed

lemma r64_val_23: "r64 (1769471953125 / 65536) = Fin (1769471953125 / 65536)"
proof -
  have "round_fl 53 1023 (1769471953125 / 65536) = Fin (of_int (7247757120000000) * 2 powi (24 - int 53 + 1))"
    by (rule round_fl_eval) simp_all
  then show ?thesis by (simp add: r64_def)
qed

lemma rint_val_24: "rint (1769471953125 / 65536) = 26999999"
  by (rule rint_eq) simp

lemma r64_val_25: "r64 (26999999 / 1000000) = Fin (7599824089712735 / 281474976710656)"
proof -
  have "round_fl 53 1023 (26999999 / 1000000) = Fin (of_int (7599824089712735) * 2 powi (4 - int 53 + 1))"
    by (rule round_fl_eval) simp_all
  then show ?thesis by (simp add: r64_def)
qed

lemma r64_val_26: "r64 (943718375 / 65536) = Fin (943718375 / 65536)"
proof -
  have "round_fl 53 1023 (943718375 / 65536) = Fin (of_int (7916483510272000) * 2 powi (13 - int 53 + 1))"
    by (rule round_fl_eval) simp_all
  then show ?thesis by (simp add: r64_def)
qed

lemma r64_val_27: "r64 (14745599609375 / 1024) = Fin (14745599609375 / 1024)"
proof -
  have "round_fl 53 1023 (14745599609375 / 1024) = Fin (of_int (7549747000000000) * 2 powi (33 - int 53 + 1))"
    by (rule round_fl_eval) simp_all
  then show ?thesis by (simp add: r64_def)
qed

lemma rint_val_28: "rint (14745599609375 / 1024) = 14399999619"
  by (rule rint_eq) simp

lemma r64_val_29: "r64 (14399999619 / 1000000) = Fin (7916483510530235 / 549755813888)"
proof -
  have "round_fl 53 1023 (14399999619 / 1000000) = Fin (of_int (7916483510530235) * 2 powi (13 - int 53 + 1))"
    by (rule round_fl_eval) simp_all
  then show ?thesis by (simp add: r64_def)
qed

lemma r32_val_30: "r32 (- (1 / 2)) = Fin (- (1 / 2))"
proof -
  have "round_fl 24 127 (- (1 / 2)) = Fin (of_int (- 8388608) * 2 powi (- 1 - int 24 + 1))"
    by (rule round_fl_eval) simp_all
  then show ?thesis by (simp add: r32_def)
qed

lemma r64_val_31: "r64 (- (3 / 2)) = Fin (- (3 / 2))"
proof -
  have "round_fl 53 1023 (- (3 / 2)) = Fin (of_int (- 6755399441055744) * 2 powi (0 - int 53 + 1))"
    by (rule round_fl_eval) simp_all
  then show ?thesis by (simp add: r64_def)
qed

lemma r64_val_32: "r64 (- 1500000) = Fin (- 1500000)"
proof -
  have "round_fl 53 1023 (- 1500000) = Fin (of_int (- 6442450944000000) * 2 powi (20 - int 53 + 1))"
    by (rule round_fl_eval) simp_all
  then show ?thesis by (simp add: r64_def)
qed

lemma rint_val_33: "rint (- 1500000) = - 1500000"
  by (rule rint_eq) simp

lemma r64_val_34: "r64 (- (5 / 2)) = Fin (- (5 / 2))"
proof -
  have "round_fl 53 1023 (- (5 / 2)) = Fin (of_int (- 5629499534213120) * 2 powi (1 - int 53 + 1))"
    by (rule round_fl_eval) simp_all
  then show ?thesis by (simp add: r64_def)
qed

lemma r64_val_35: "r64 (- 2500000) = Fin (- 2500000)"
proof -
  have "round_fl 53 1023 (- 2500000) = Fin (of_int (- 5368709120000000) * 2 powi (21 - int 53 + 1))"
    by (rule round_fl_eval) simp_all
  then show ?thesis by (simp add: r64_def)
qed

lemma rint_val_36: "rint (- 2500000) = - 2500000"
  by (rule rint_eq) simp

lemmas fl_vals =
  r32_0 r32_1 r64_0 r64_1 r32_numeral r64_numeral rint_0 rint_1 rint_numeral r32_1_25
  r32_9_10 r32_half r32_3_2 r64_half r64_3_2 r32_big r32_big_idem r64_fine_sum r64_fine_mean
  r32_fine_mean r32_val_12 r64_val_13 r64_val_14 rint_val_15 r64_val_16 r64_val_17
  r64_val_18 rint_val_19 r64_val_20 r32_val_21 r64_val_22 r64_val_23 rint_val_24 r64_val_25
  r64_val_26 r64_val_27 rint_val_28 r64_val_29 r32_val_30 r64_val_31 r64_val_32 rint_val_33
  r64_val_34 r64_val_35 rint_val_36

lemma win_30_0_1: "num_samples_of 30 (Fin (0)) (Fin (1)) = Inr (30)"
  by (simp add: num_samples_of_def np_around_def fl_vals)

lemma win_16000_0_1: "num_samples_of 16000 (Fin (0)) (Fin (1)) = Inr (16000)"
  by (simp add: num_samples_of_def np_around_def fl_vals)

lemma win_1_0_1: "num_samples_of 1 (Fin (0)) (Fin (1)) = Inr (1)"
  by (simp add: num_samples_of_def np_around_def fl_vals)

lemma win_2_0_1: "num_samples_of 2 (Fin (0)) (Fin (1)) = Inr (2)"
  by (simp add: num_samples_of_def np_around_def fl_vals)

lemma win_4_0_1: "num_samples_of 4 (Fin (0)) (Fin (1)) = Inr (4)"
  by (simp add: num_samples_of_def np_around_def fl_vals)

lemma win_30_a04: "num_samples_of 30 (Fin (0)) (Fin (5368709 / 134217728)) = Inr (1)"
  by (simp add: num_samples_of_def np_around_def fl_vals)

lemma win_16000_a04: "num_samples_of 16000 (Fin (0)) (Fin (5368709 / 134217728)) = Inr (639)"
  by (simp add: num_samples_of_def np_around_def fl_vals)

lemma win_30_a09: "num_samples_of 30 (Fin (0)) (Fin (7549747 / 8388608)) = Inr (26)"
  by (simp add: num_samples_of_def np_around_def fl_vals)

lemma win_16000_a09: "num_samples_of 16000 (Fin (0)) (Fin (7549747 / 8388608)) = Inr (14399)"
  by (simp add: num_samples_of_def np_around_def fl_vals)

lemma win_3_back: "num_samples_of 3 (Fin (1)) (Fin (1 / 2)) = Inr (- 1)"
  by (simp add: num_samples_of_def np_around_def fl_vals)

lemma win_5_back: "num_samples_of 5 (Fin (1)) (Fin (1 / 2)) = Inr (- 2)"
  by (simp add: num_samples_of_def np_around_def fl_vals)

lemma win_1_0_2: "num_samples_of 1 (Fin (0)) (Fin (2)) = Inr (2)"
  by (simp add: num_samples_of_def np_around_def fl_vals)

lemma win_2_0_2: "num_samples_of 2 (Fin (0)) (Fin (2)) = Inr (4)"
  by (simp add: num_samples_of_def np_around_def fl_vals)

lemmas fl_wins =
  win_30_0_1 win_16000_0_1 win_1_0_1 win_2_0_1 win_4_0_1 win_30_a04 win_16000_a04 win_30_a09
  win_16000_a09 win_3_back win_5_back win_1_0_2 win_2_0_2

subsection \<open>A successful run\<close>

lemma hd_cast_row: "r \<noteq> [] \<Longrightarrow> hd (map cast32 r) = cast32 (hd r)"
  by (simp add: hd_map)

lemma rows_nonempty:
  assumes "list_all (\<lambda>q. length q = length (hd rows)) rows" and "hd rows \<noteq> []"
  shows "\<forall>r\<in>set rows. r \<noteq> []"
  using assms by (auto simp: list_all_iff)

lemma timestamps_eq:
  assumes "list_all (\<lambda>q. length q = length (hd rows)) rows" and "hd rows \<noteq> []"
  shows "map hd (map (map cast32) rows) = map (\<lambda>r. cast32 (hd r)) rows"
  using rows_nonempty [OF assms] by (simp add: hd_map)

lemma get_samples_replay:
  assumes reader: "labelfile_reader g lf = Inr (rows, names)"
    and rect: "list_all (\<lambda>q. length q = length (hd rows)) rows" "hd rows \<noteq> []"
    and len: "2 \<le> length rows"
    and c: "m df = Inr c" "has_audio c"
    and vn: "num_samples_of (fps g) (cast32 (hd (rows ! 0))) (cast32 (hd (rows ! 1))) = Inr vn"
    and an: "num_samples_of (sr g) (cast32 (hd (rows ! 0))) (cast32 (hd (rows ! 1))) = Inr an"
  shows "get_samples m g df lf s =
    (case segments g c vn an (map (\<lambda>r. cast32 (hd r)) rows)
            (s @ [ReadLabels lf, OpenClip df]) of
       (Inl e, s3) \<Rightarrow> (Inl e, s3)
     | (Inr (vs, afs), s3) \<Rightarrow>
         (case np_stack vs of
            Inl e \<Rightarrow> (Inl e, s3)
          | Inr visual \<Rightarrow>
              (case np_stack afs of
                 Inl e \<Rightarrow> (Inl e, s3)
               | Inr audio \<Rightarrow>
                   (Inr \<lparr>audio_frames = nd_astype32 audio,
                         visual_frames = nd_astype32 visual,
                         labels = nd_astype32 (label_rows (map (map cast32) rows)),
                         seq_num = int (length rows) - 2,
                         num_samples = [an, vn],
                         attrs_name = names\<rparr>, s3))))"
proof -
  from len obtain r0 rs where rows: "rows = r0 # rs" by (cases rows) auto
  have arr: "np_array_rows rows = Inr (map (map cast32) rows)"
    using rect(1) rows by (simp add: np_array_rows_def)
  have col: "column0 (map (map cast32) rows) = Inr (map (\<lambda>r. cast32 (hd r)) rows)"
    using timestamps_eq [OF rect] rect(2) rows by (simp add: column0_def)
  have nth: "map (\<lambda>r. cast32 (hd r)) rows ! 0 = cast32 (hd (rows ! 0))"
    "map (\<lambda>r. cast32 (hd r)) rows ! 1 = cast32 (hd (rows ! 1))"
    using len by (auto intro!: nth_map)
  have seq: "int (hd (shape (label_rows (map (map cast32) rows)))) - 1 = int (length rows) - 2"
    using len by (simp add: label_rows_def)
  have l2: "\<not> length rows < 2" using len by simp
  show ?thesis
    using reader arr col c nth vn an l2
    unfolding get_samples_def Let_def by (simp add: seq split: sum.splits prod.splits)
qed

lemma py_int_Inr: "py_int v = Inr w \<Longrightarrow> \<exists>y. v = Fin y \<and> w = (if 0 \<le> y then \<lfloor>y\<rfloor> else \<lceil>y\<rceil>)"
  by (cases v) auto

lemma get_samples_Inr:
  assumes run: "get_samples m g df lf s = (Inr r, s')"
    and reader: "labelfile_reader g lf = Inr (rows, names)"
  obtains c vn an vs afs visual audio where
    "list_all (\<lambda>q. length q = length (hd rows)) rows" "hd rows \<noteq> []" "2 \<le> length rows"
    "m df = Inr c" "has_audio c"
    "num_samples_of (fps g) (cast32 (hd (rows ! 0))) (cast32 (hd (rows ! 1))) = Inr vn"
    "num_samples_of (sr g) (cast32 (hd (rows ! 0))) (cast32 (hd (rows ! 1))) = Inr an"
    "segments g c vn an (map (\<lambda>r. cast32 (hd r)) rows) (s @ [ReadLabels lf, OpenClip df]) =
       (Inr (vs, afs), s')"
    "np_stack vs = Inr visual" "np_stack afs = Inr audio"
    "r = \<lparr>audio_frames = nd_astype32 audio,
          visual_frames = nd_astype32 visual,
          labels = nd_astype32 (label_rows (map (map cast32) rows)),
          seq_num = int (length rows) - 2,
          num_samples = [an, vn],
          attrs_name = names\<rparr>"
proof -
  from assms have rows_ne: "rows \<noteq> []"
    by (auto simp: get_samples_def np_array_rows_def column0_def split: list.splits)
  then obtain r0 rs where rows: "rows = r0 # rs" by (cases rows) auto
  from assms rows have rect: "list_all (\<lambda>q. length q = length (hd rows)) rows"
    by (auto simp: get_samples_def np_array_rows_def split: if_splits)
  then have arr: "np_array_rows rows = Inr (map (map cast32) rows)"
    using rows by (simp add: np_array_rows_def)
  from assms arr rows have r0: "hd rows \<noteq> []"
    by (auto simp: get_samples_def column0_def)
  have col: "column0 (map (map cast32) rows) = Inr (map (\<lambda>r. cast32 (hd r)) rows)"
    using timestamps_eq [OF rect r0] r0 rows by (simp add: column0_def)
  from assms arr col obtain c where c: "m df = Inr c"
    by (auto simp: get_samples_def Let_def split: sum.splits)
  from assms arr col c have aud: "has_audio c"
    by (auto simp: get_samples_def Let_def split: if_splits)
  from assms arr col c aud have len: "2 \<le> length rows"
    by (auto simp: get_samples_def Let_def split: if_splits)
  then have nth: "map (\<lambda>r. cast32 (hd r)) rows ! 0 = cast32 (hd (rows ! 0))"
    "map (\<lambda>r. cast32 (hd r)) rows ! 1 = cast32 (hd (rows ! 1))"
    by (auto intro!: nth_map)
  have l2: "\<not> length rows < 2" using len by simp
  from assms arr col c aud l2 nth obtain vn where
    vn: "num_samples_of (fps g) (cast32 (hd (rows ! 0))) (cast32 (hd (rows ! 1))) = Inr vn"
    by (auto simp: get_samples_def Let_def split: sum.splits)
  from assms arr col c aud l2 nth vn obtain an where
    an: "num_samples_of (sr g) (cast32 (hd (rows ! 0))) (cast32 (hd (rows ! 1))) = Inr an"
    by (auto simp: get_samples_def Let_def split: sum.splits)
  note rp = get_samples_replay [where m = m and df = df and s = s, OF reader rect r0 len c aud vn an]
  from run rp obtain vs afs where
    seg: "segments g c vn an (map (\<lambda>r. cast32 (hd r)) rows) (s @ [ReadLabels lf, OpenClip df]) =
       (Inr (vs, afs), s')"
    by (auto split: sum.splits prod.splits)
  from run rp seg obtain visual where v: "np_stack vs = Inr visual"
    by (auto split: sum.splits)
  from run rp seg v obtain audio where a: "np_stack afs = Inr audio"
    by (auto split: sum.splits)
  from run rp seg v a have r: "r = \<lparr>audio_frames = nd_astype32 audio,
          visual_frames = nd_astype32 visual,
          labels = nd_astype32 (label_rows (map (map cast32) rows)),
          seq_num = int (length rows) - 2,
          num_samples = [an, vn],
          attrs_name = names\<rparr>"
    by simp
  show ?thesis by (rule that [OF rect r0 len c aud vn an seg v a r])
qed

text \<open>The blocks of segment \<open>i\<close> in a successful run.\<close>

lemma run_segment:
  assumes run: "get_samples m g df lf s = (Inr r, s')"
    and reader: "labelfile_reader g lf = Inr (rows, names)"
    and i: "Suc i < length rows"
  obtains c an vn where
    "m df = Inr c" "num_samples r = [an, vn]"
    "num_samples_of (fps g) (cast32 (hd (rows ! 0))) (cast32 (hd (rows ! 1))) = Inr vn"
    "num_samples_of (sr g) (cast32 (hd (rows ! 0))) (cast32 (hd (rows ! 1))) = Inr an"
    "fst (segment g c vn an (cast32 (hd (rows ! i))) (cast32 (hd (rows ! Suc i))) []) =
       Inr (nd_row (visual_frames r) i, nd_row (audio_frames r) i)"
    "shape (visual_frames r) = (length rows - 1) # shape (nd_row (visual_frames r) i)"
    "shape (audio_frames r) = (length rows - 1) # shape (nd_row (audio_frames r) i)"
proof -
  from run reader obtain c vn an vs afs visual audio where
    c: "m df = Inr c" and
    vn: "num_samples_of (fps g) (cast32 (hd (rows ! 0))) (cast32 (hd (rows ! 1))) = Inr vn" and
    an: "num_samples_of (sr g) (cast32 (hd (rows ! 0))) (cast32 (hd (rows ! 1))) = Inr an" and
    seg: "segments g c vn an (map (\<lambda>r. cast32 (hd r)) rows) (s @ [ReadLabels lf, OpenClip df]) =
       (Inr (vs, afs), s')" and
    st: "np_stack vs = Inr visual" "np_stack afs = Inr audio" and
    r: "r = \<lparr>audio_frames = nd_astype32 audio,
          visual_frames = nd_astype32 visual,
          labels = nd_astype32 (label_rows (map (map cast32) rows)),
          seq_num = int (length rows) - 2,
          num_samples = [an, vn],
          attrs_name = names\<rparr>"
    by (rule get_samples_Inr)
  note ch = segments_char [OF seg]
  note wf = segments_wf [OF seg]
  from ch i have len: "i < length vs" "i < length afs" "length vs = length rows - 1"
    "length afs = length rows - 1" by simp_all
  have ts: "map (\<lambda>r. cast32 (hd r)) rows ! i = cast32 (hd (rows ! i))"
    "map (\<lambda>r. cast32 (hd r)) rows ! Suc i = cast32 (hd (rows ! Suc i))"
    using i by (auto intro!: nth_map)
  have wfv: "\<forall>x\<in>set vs. wf_nd x" and wfa: "\<forall>x\<in>set afs. wf_nd x" using wf by simp_all
  have "nd_astype32 (vs ! i) = vs ! i" using wf(1) len(1) by simp
  then have rows_v: "nd_row (visual_frames r) i = vs ! i"
    using np_stack_row [OF st(1) len(1) wfv] r by (simp add: nd_row_astype32)
  have "nd_astype32 (afs ! i) = afs ! i" using wf(2) len(2) by simp
  then have rows_a: "nd_row (audio_frames r) i = afs ! i"
    using np_stack_row [OF st(2) len(2) wfa] r by (simp add: nd_row_astype32)
  from ch i have "fst (segment g c vn an (map (\<lambda>r. cast32 (hd r)) rows ! i)
        (map (\<lambda>r. cast32 (hd r)) rows ! Suc i) []) = Inr (vs ! i, afs ! i)"
    by simp
  then have s: "fst (segment g c vn an (cast32 (hd (rows ! i))) (cast32 (hd (rows ! Suc i))) []) =
         Inr (nd_row (visual_frames r) i, nd_row (audio_frames r) i)"
    using ts rows_v rows_a by simp
  have ne: "vs \<noteq> []" "afs \<noteq> []" using len by auto
  have "shape (vs ! i) = shape (hd vs)"
    using np_stack_Inr(3) [OF st(1) ne(1)] len(1) by simp
  then have shv: "shape (visual_frames r) = (length rows - 1) # shape (nd_row (visual_frames r) i)"
    using np_stack_Inr(1) [OF st(1) ne(1)] rows_v len(3) r by (simp add: shape_astype32)
  have "shape (afs ! i) = shape (hd afs)"
    using np_stack_Inr(3) [OF st(2) ne(2)] len(2) by simp
  then have sha: "shape (audio_frames r) = (length rows - 1) # shape (nd_row (audio_frames r) i)"
    using np_stack_Inr(1) [OF st(2) ne(2)] rows_a len(4) r by (simp add: shape_astype32)
  have ns: "num_samples r = [an, vn]" using r by simp
  show ?thesis by (rule that [OF c ns vn an s shv sha])
qed

text \<open>
  What a successful run on \<open>N\<close> label rows returns: \<open>N - 1\<close> segments and label rows,
  and \<open>N - 2\<close> as \<^verbatim>\<open>seq_num\<close>.
\<close>

lemma run_counts:
  assumes run: "get_samples m g df lf s = (Inr r, s')"
    and reader: "labelfile_reader g lf = Inr (rows, names)"
  shows "seq_num r = int (length rows) - 2"
    and "hd (shape (labels r)) = length rows - 1"
    and "hd (shape (audio_frames r)) = length rows - 1"
    and "hd (shape (visual_frames r)) = length rows - 1"
proof -
  from run reader obtain c vn an vs afs visual audio where
    len: "2 \<le> length rows" and
    r: "r = \<lparr>audio_frames = nd_astype32 audio,
          visual_frames = nd_astype32 visual,
          labels = nd_astype32 (label_rows (map (map cast32) rows)),
          seq_num = int (length rows) - 2,
          num_samples = [an, vn],
          attrs_name = names\<rparr>"
    by (rule get_samples_Inr)
  from r show "seq_num r = int (length rows) - 2" by simp
  from r show "hd (shape (labels r)) = length rows - 1"
    by (simp add: shape_astype32 label_rows_def)
  from len have i: "Suc 0 < length rows" by simp
  from run reader i obtain c an vn where
    "shape (visual_frames r) = (length rows - 1) # shape (nd_row (visual_frames r) 0)"
    "shape (audio_frames r) = (length rows - 1) # shape (nd_row (audio_frames r) 0)"
    by (rule run_segment)
  then show "hd (shape (audio_frames r)) = length rows - 1"
    "hd (shape (visual_frames r)) = length rows - 1" by simp_all
qed

subsection \<open>Runs on the small recording\<close>

lemmas ex_defs =
  ex_gen_def init_def ex_reader_def ex_media_def ex_clip_def ex_clip3_def ex_pixels_def
  ex_extractor_def ex_frame_def ex_writer_def ex_rows_def ex_rows2_def ex_rows3_def ex_names_def

lemmas run_defs =
  get_samples_def np_array_rows_def column0_def label_rows_def segment_def np_stack_def
  nd_slice_to_def py_slice_to_def visual_post_def np_transpose_0312_def audio_mean_def
  nd_vector_def mean64_def np_zeros_def nd_astype32_def nd_row_def Let_def upt_conv_Cons

lemma ex_run_two:
  "get_samples ex_media (ex_gen False ex_rows2 30 16000) ''clip.mp4'' ''labels.csv'' [] =
   (Inr \<lparr>audio_frames = \<lparr>shape = [1, 3], data = [Fin (1 / 2), Fin (1 / 2), Fin 2]\<rparr>,
         visual_frames = \<lparr>shape = [1, 2, 3, 1, 1],
                          data = [Fin 0, Fin 0, Fin 0, Fin 1, Fin 1, Fin 1]\<rparr>,
         labels = \<lparr>shape = [1, 2], data = [Fin 5, Fin 7]\<rparr>,
         seq_num = 0,
         num_samples = [16000, 30],
         attrs_name = ex_names\<rparr>,
    [ReadLabels ''labels.csv'', OpenClip ''clip.mp4'', VisualRange (Fin 0) (Fin 1),
     AudioRange (Fin 0) (Fin 1)])"
  by (simp add: ex_defs run_defs fl_vals fl_wins)

lemma ex_run_three:
  "get_samples ex_media (ex_gen False ex_rows3 2 4) ''clip.mp4'' ''labels.csv'' [] =
   (Inr \<lparr>audio_frames = \<lparr>shape = [2, 3],
             data = [Fin (1 / 2), Fin (1 / 2), Fin 2, Fin (3 / 2), Fin (3 / 2), Fin 2]\<rparr>,
         visual_frames =
           \<lparr>shape = [2, 2, 3, 1, 1],
            data = [Fin 0, Fin 0, Fin 0, Fin 1, Fin 1, Fin 1,
                    Fin 1, Fin 1, Fin 1, Fin 2, Fin 2, Fin 2]\<rparr>,
         labels = \<lparr>shape = [2, 2], data = [Fin 5, Fin 7, Fin 6, Fin 8]\<rparr>,
         seq_num = 1,
         num_samples = [4, 2],
         attrs_name = ex_names\<rparr>,
    [ReadLabels ''labels.csv'', OpenClip ''clip.mp4'', VisualRange (Fin 0) (Fin 1),
     AudioRange (Fin 0) (Fin 1), VisualRange (Fin 1) (Fin 2), AudioRange (Fin 1) (Fin 2)])"
  by (simp add: ex_defs run_defs fl_vals fl_wins)

lemma ex_run_long:
  "get_samples ex_media (ex_gen False (ex_rows [0, 2, 3]) 1 2) ''long.mp4'' ''labels.csv'' [] =
   (Inr \<lparr>audio_frames = \<lparr>shape = [2, 4],
             data = [Fin 2, Fin 1, Fin 8, Fin 5, Fin 2, Fin 1, Fin 8, Fin 5]\<rparr>,
         visual_frames =
           \<lparr>shape = [2, 2, 3, 1, 2],
            data = [Fin 1, Fin 4, Fin 2, Fin 5, Fin 3, Fin 6,
                    Fin 11, Fin 14, Fin 12, Fin 15, Fin 13, Fin 33554432,
                    Fin 1, Fin 4, Fin 2, Fin 5, Fin 3, Fin 6,
                    Fin 11, Fin 14, Fin 12, Fin 15, Fin 13, Fin 33554432]\<rparr>,
         labels = \<lparr>shape = [2, 2], data = [Fin 5, Fin 7, Fin 5, Fin 7]\<rparr>,
         seq_num = 1,
         num_samples = [4, 2],
         attrs_name = ex_names\<rparr>,
    [ReadLabels ''labels.csv'', OpenClip ''long.mp4'', VisualRange (Fin 0) (Fin 2),
     AudioRange (Fin 0) (Fin 2), VisualRange (Fin 2) (Fin 3), AudioRange (Fin 2) (Fin 3)])"
  by (simp add: ex_defs run_defs fl_vals fl_wins)

lemma ex_reader_rows: "labelfile_reader (ex_gen b rows f r) ''labels.csv'' = Inr (rows, ex_names)"
  by (simp add: ex_gen_def init_def ex_reader_def)

lemma ex_media_clip: "ex_media ''clip.mp4'' = Inr ex_clip"
  by (simp add: ex_media_def)

lemma ex_media_long: "ex_media ''long.mp4'' = Inr ex_clip3"
  by (simp add: ex_media_def)

lemma fl_sub32_Fin:
  "fl_sub32 a b = Fin d \<Longrightarrow> \<exists>x y. a = Fin x \<and> b = Fin y \<and> r32 (x - y) = Fin d"
  by (cases a; cases b) simp_all

lemma fl_mul64_Fin:
  "fl_mul64 a b = Fin z \<Longrightarrow> \<exists>x y. a = Fin x \<and> b = Fin y \<and> r64 (x * y) = Fin z"
  by (cases a; cases b) (simp_all split: if_splits)

lemma np_around_Fin:
  "np_around v k = Fin y \<Longrightarrow>
   \<exists>x z. v = Fin x \<and> r64 (x * 10 ^ k) = Fin z \<and> r64 (of_int (rint z) / 10 ^ k) = Fin y"
proof -
  assume a: "np_around v k = Fin y"
  then obtain z where z: "fl_mul64 v (Fin (10 ^ k)) = Fin z"
    by (cases "fl_mul64 v (Fin (10 ^ k))") (simp_all add: np_around_def)
  with a have y: "r64 (of_int (rint z) / 10 ^ k) = Fin y" by (simp add: np_around_def)
  from fl_mul64_Fin [OF z] obtain x where "v = Fin x" "r64 (x * 10 ^ k) = Fin z" by auto
  with y show ?thesis by blast
qed

lemma num_samples_of_Inr:
  assumes "num_samples_of rate a b = Inr w"
  shows "\<exists>t0 t1 d R x z y. a = Fin t0 \<and> b = Fin t1 \<and> r32 (t1 - t0) = Fin d \<and>
     r64 (of_int rate) = Fin R \<and> r64 (R * d) = Fin x \<and> r64 (x * 10 ^ 6) = Fin z \<and>
     r64 (of_int (rint z) / 10 ^ 6) = Fin y \<and> w = (if 0 \<le> y then \<lfloor>y\<rfloor> else \<lceil>y\<rceil>)"
proof -
  from assms obtain y where
    y: "np_around (fl_mul64 (r64 (of_int rate)) (fl_sub32 b a)) 6 = Fin y"
    and w: "w = (if 0 \<le> y then \<lfloor>y\<rfloor> else \<lceil>y\<rceil>)"
    unfolding num_samples_of_def by (auto dest: py_int_Inr)
  from np_around_Fin [OF y] obtain x z where
    x: "fl_mul64 (r64 (of_int rate)) (fl_sub32 b a) = Fin x" and
    z: "r64 (x * 10 ^ 6) = Fin z" "r64 (of_int (rint z) / 10 ^ 6) = Fin y" by auto
  from fl_mul64_Fin [OF x] obtain R d where
    R: "r64 (of_int rate) = Fin R" and d: "fl_sub32 b a = Fin d" and p: "r64 (R * d) = Fin x"
    by auto
  from fl_sub32_Fin [OF d] obtain t1 t0 where
    "b = Fin t1" "a = Fin t0" "r32 (t1 - t0) = Fin d" by auto
  with R p z w show ?thesis by blast
qed

lemma rint_unique:
  assumes "\<bar>z - of_int n\<bar> \<le> 1 / 2" and "\<bar>z - of_int n\<bar> = 1 / 2 \<longrightarrow> even n"
  shows "rint z = n"
proof (rule ccontr)
  assume ne: "rint z \<noteq> n"
  have c: "\<bar>z - of_int (rint z)\<bar> \<le> 1 / 2"
    using rint_close [of z] by (simp add: abs_minus_commute)
  have "\<bar>(of_int (rint z) :: real) - of_int n\<bar> \<le> 1" using c assms(1) by linarith
  then have "\<bar>rint z - n\<bar> \<le> 1" by (metis of_int_diff of_int_abs of_int_le_1_iff)
  with ne have d: "rint z = n + 1 \<or> rint z = n - 1" by linarith
  then have "\<bar>(of_int (rint z) :: real) - of_int n\<bar> = 1" by auto
  with c assms(1) have t: "\<bar>z - of_int n\<bar> = 1 / 2" "\<bar>z - of_int (rint z)\<bar> = 1 / 2"
    by linarith+
  then have "even n" "even (rint z)" using assms(2) rint_tie_even by blast+
  with d show False by auto
qed

lemma num_samples_of_chain:
  assumes "a = Fin t0" "b = Fin t1" "r32 (t1 - t0) = Fin d"
    and "r64 (of_int rate) = Fin R" "r64 (R * d) = Fin x" "r64 (x * 10 ^ 6) = Fin z"
    and "\<bar>z - of_int n\<bar> \<le> 1 / 2" "\<bar>z - of_int n\<bar> = 1 / 2 \<longrightarrow> even n"
    and "r64 (of_int n / 10 ^ 6) = Fin y" "w = (if 0 \<le> y then \<lfloor>y\<rfloor> else \<lceil>y\<rceil>)"
  shows "num_samples_of rate a b = Inr w"
proof -
  have n: "rint z = n" using assms(7,8) by (rule rint_unique)
  have z: "r64 (x * 1000000) = Fin z" using assms(6) by simp
  have y: "r64 (of_int n / 1000000) = Fin y" using assms(9) by simp
  show ?thesis
    using assms(1-5,10) by (simp add: num_samples_of_def np_around_def n z y)
qed

lemma run_projr: "\<not> isl (fst p) \<Longrightarrow> p = (Inr (projr (fst p)), snd p)"
  by (cases "fst p") (simp_all add: prod_eq_iff)

subsection \<open>C1: the segment count\<close>

text \<open>
  Claim C1. For a label table with \<open>N \<ge> 2\<close> rows the returned segment count
  \<^verbatim>\<open>seq_num\<close> is \<open>N - 1\<close> and the label matrix has that many rows. The code computes
  \<^verbatim>\<open>seq_num = labels.shape[0] - 1\<close> after the last row has already been cut from
  \<^verbatim>\<open>labels\<close>, so it returns \<open>N - 2\<close>. On the label file with exactly two rows, at 30
  frames per second and 16000 samples per second, the run emits one segment (one audio
  block, one visual block, one label row) and returns the segment count 0.
\<close>

theorem seq_num_two_rows:
  "seq_num (projr (fst (get_samples ex_media (ex_gen False ex_rows2 30 16000)
       ''clip.mp4'' ''labels.csv'' []))) = 0 \<and>
   shape (labels (projr (fst (get_samples ex_media (ex_gen False ex_rows2 30 16000)
       ''clip.mp4'' ''labels.csv'' [])))) = [1, 2] \<and>
   shape (audio_frames (projr (fst (get_samples ex_media (ex_gen False ex_rows2 30 16000)
       ''clip.mp4'' ''labels.csv'' [])))) = [1, 3] \<and>
   shape (visual_frames (projr (fst (get_samples ex_media (ex_gen False ex_rows2 30 16000)
       ''clip.mp4'' ''labels.csv'' [])))) = [1, 2, 3, 1, 1] \<and>
   length ex_rows2 = 2"
  by (simp add: ex_run_two) (simp add: ex_rows2_def)

subsection \<open>C2: the windows\<close>

text \<open>
  Claim C2, as amended. In a successful run the two timestamps are first cast to
  \<^verbatim>\<open>float32\<close> and subtracted in \<^verbatim>\<open>float32\<close>. For each rate, \<open>sr\<close> for the audio window
  and \<open>fps\<close> for the visual window, the difference is multiplied by the rate in
  \<^verbatim>\<open>float64\<close>, the product is rounded to six decimal places (multiplied by \<open>10\<^sup>6\<close>,
  rounded to the nearest integer with ties to the even one, divided by \<open>10\<^sup>6\<close>, each
  step in \<^verbatim>\<open>float64\<close>) and the result is truncated toward zero. The window is not the
  product rounded to the nearest integer.
\<close>

theorem windows_truncate:
  assumes run: "get_samples m g df lf s = (Inr r, s')"
    and reader: "labelfile_reader g lf = Inr (rows, names)"
  shows "\<exists>t0 t1 d aw vw.
     cast32 (hd (rows ! 0)) = Fin t0 \<and> cast32 (hd (rows ! 1)) = Fin t1 \<and>
     r32 (t1 - t0) = Fin d \<and> num_samples r = [aw, vw] \<and>
     (\<exists>R x z n y. r64 (of_int (sr g)) = Fin R \<and> r64 (R * d) = Fin x \<and>
        r64 (x * 10 ^ 6) = Fin z \<and>
        \<bar>z - of_int n\<bar> \<le> 1 / 2 \<and> (\<bar>z - of_int n\<bar> = 1 / 2 \<longrightarrow> even n) \<and>
        r64 (of_int n / 10 ^ 6) = Fin y \<and> aw = (if 0 \<le> y then \<lfloor>y\<rfloor> else \<lceil>y\<rceil>)) \<and>
     (\<exists>R x z n y. r64 (of_int (fps g)) = Fin R \<and> r64 (R * d) = Fin x \<and>
        r64 (x * 10 ^ 6) = Fin z \<and>
        \<bar>z - of_int n\<bar> \<le> 1 / 2 \<and> (\<bar>z - of_int n\<bar> = 1 / 2 \<longrightarrow> even n) \<and>
        r64 (of_int n / 10 ^ 6) = Fin y \<and> vw = (if 0 \<le> y then \<lfloor>y\<rfloor> else \<lceil>y\<rceil>))"
proof -
  from run reader obtain c vn an vs afs visual audio where
    vn: "num_samples_of (fps g) (cast32 (hd (rows ! 0))) (cast32 (hd (rows ! 1))) = Inr vn" and
    an: "num_samples_of (sr g) (cast32 (hd (rows ! 0))) (cast32 (hd (rows ! 1))) = Inr an" and
    r: "r = \<lparr>audio_frames = nd_astype32 audio,
          visual_frames = nd_astype32 visual,
          labels = nd_astype32 (label_rows (map (map cast32) rows)),
          seq_num = int (length rows) - 2,
          num_samples = [an, vn],
          attrs_name = names\<rparr>"
    by (rule get_samples_Inr)
  have rn: "\<bar>z - of_int (rint z)\<bar> \<le> 1 / 2 \<and> (\<bar>z - of_int (rint z)\<bar> = 1 / 2 \<longrightarrow> even (rint z))"
    for z
    using rint_close [of z] rint_tie_even [of z] by (simp add: abs_minus_commute)
  from num_samples_of_Inr [OF an] obtain t0 t1 d R x z y where
    a: "cast32 (hd (rows ! 0)) = Fin t0" "cast32 (hd (rows ! 1)) = Fin t1"
       "r32 (t1 - t0) = Fin d" and
    a': "r64 (of_int (sr g)) = Fin R" "r64 (R * d) = Fin x" "r64 (x * 10 ^ 6) = Fin z"
       "r64 (of_int (rint z) / 10 ^ 6) = Fin y" "an = (if 0 \<le> y then \<lfloor>y\<rfloor> else \<lceil>y\<rceil>)"
    by blast
  from num_samples_of_Inr [OF vn] a obtain R2 x2 z2 y2 where
    v': "r64 (of_int (fps g)) = Fin R2" "r64 (R2 * d) = Fin x2" "r64 (x2 * 10 ^ 6) = Fin z2"
       "r64 (of_int (rint z2) / 10 ^ 6) = Fin y2" "vn = (if 0 \<le> y2 then \<lfloor>y2\<rfloor> else \<lceil>y2\<rceil>)"
    by auto
  have ns: "num_samples r = [an, vn]" using r by simp
  have A: "\<exists>R x z n y. r64 (of_int (sr g)) = Fin R \<and> r64 (R * d) = Fin x \<and>
        r64 (x * 10 ^ 6) = Fin z \<and>
        \<bar>z - of_int n\<bar> \<le> 1 / 2 \<and> (\<bar>z - of_int n\<bar> = 1 / 2 \<longrightarrow> even n) \<and>
        r64 (of_int n / 10 ^ 6) = Fin y \<and> an = (if 0 \<le> y then \<lfloor>y\<rfloor> else \<lceil>y\<rceil>)"
    using a' rn [of z] by blast
  have V: "\<exists>R x z n y. r64 (of_int (fps g)) = Fin R \<and> r64 (R * d) = Fin x \<and>
        r64 (x * 10 ^ 6) = Fin z \<and>
        \<bar>z - of_int n\<bar> \<le> 1 / 2 \<and> (\<bar>z - of_int n\<bar> = 1 / 2 \<longrightarrow> even n) \<and>
        r64 (of_int n / 10 ^ 6) = Fin y \<and> vn = (if 0 \<le> y then \<lfloor>y\<rfloor> else \<lceil>y\<rceil>)"
    using v' rn [of z2] by blast
  from a ns A V show ?thesis by blast
qed

text \<open>
  The theorem at the timestamps 0 and 0.04 with 30 frames and 16000 samples per second:
  the cast timestamp is 0.0399999991, the products are 1.1999999732 and 639.9999857,
  rounded to 1.2 and 639.999986, and the windows are 1 and 639. At the timestamps 1 and
  0.5, with 3 frames and 5 samples per second, the products are -1.5 and -2.5 and the
  windows are -1 and -2.
\<close>

theorem windows_truncate_witness:
  "num_samples (projr (fst (get_samples ex_media (ex_gen False (ex_rows [0, 1 / 25]) 30 16000)
       ''long.mp4'' ''labels.csv'' []))) = [639, 1] \<and>
   num_samples (projr (fst (get_samples ex_media (ex_gen False (ex_rows [1, 1 / 2]) 3 5)
       ''long.mp4'' ''labels.csv'' []))) = [- 2, - 1]"
proof
  let ?g = "ex_gen False (ex_rows [0, 1 / 25]) 30 16000"
  let ?run = "get_samples ex_media ?g ''long.mp4'' ''labels.csv'' []"
  have "\<not> isl (fst ?run)" by (simp add: ex_defs run_defs fl_vals fl_wins)
  then have run: "?run = (Inr (projr (fst ?run)), snd ?run)" by (rule run_projr)
  have g: "sr ?g = 16000" "fps ?g = 30" by (simp_all add: ex_gen_def init_def)
  have ts: "cast32 (hd (ex_rows [0, 1 / 25] ! 0)) = Fin 0"
    "cast32 (hd (ex_rows [0, 1 / 25] ! 1)) = Fin (5368709 / 134217728)"
    by (simp_all add: ex_rows_def fl_vals)
  from windows_truncate [OF run ex_reader_rows] obtain t0 t1 d aw vw where
    t: "cast32 (hd (ex_rows [0, 1 / 25] ! 0)) = Fin t0"
       "cast32 (hd (ex_rows [0, 1 / 25] ! 1)) = Fin t1" "r32 (t1 - t0) = Fin d" and
    ns: "num_samples (projr (fst ?run)) = [aw, vw]" and
    a: "\<exists>R x z n y. r64 (of_int (sr ?g)) = Fin R \<and> r64 (R * d) = Fin x \<and>
        r64 (x * 10 ^ 6) = Fin z \<and>
        \<bar>z - of_int n\<bar> \<le> 1 / 2 \<and> (\<bar>z - of_int n\<bar> = 1 / 2 \<longrightarrow> even n) \<and>
        r64 (of_int n / 10 ^ 6) = Fin y \<and> aw = (if 0 \<le> y then \<lfloor>y\<rfloor> else \<lceil>y\<rceil>)" and
    v: "\<exists>R x z n y. r64 (of_int (fps ?g)) = Fin R \<and> r64 (R * d) = Fin x \<and>
        r64 (x * 10 ^ 6) = Fin z \<and>
        \<bar>z - of_int n\<bar> \<le> 1 / 2 \<and> (\<bar>z - of_int n\<bar> = 1 / 2 \<longrightarrow> even n) \<and>
        r64 (of_int n / 10 ^ 6) = Fin y \<and> vw = (if 0 \<le> y then \<lfloor>y\<rfloor> else \<lceil>y\<rceil>)"
    by blast
  from a t have "num_samples_of (sr ?g) (cast32 (hd (ex_rows [0, 1 / 25] ! 0)))
      (cast32 (hd (ex_rows [0, 1 / 25] ! 1))) = Inr aw"
    by (elim exE conjE) (rule num_samples_of_chain)
  then have aw: "aw = 639" unfolding g ts fl_wins by simp
  from v t have "num_samples_of (fps ?g) (cast32 (hd (ex_rows [0, 1 / 25] ! 0)))
      (cast32 (hd (ex_rows [0, 1 / 25] ! 1))) = Inr vw"
    by (elim exE conjE) (rule num_samples_of_chain)
  then have vw: "vw = 1" unfolding g ts fl_wins by simp
  from ns aw vw show "num_samples (projr (fst ?run)) = [639, 1]" by simp
next
  let ?g = "ex_gen False (ex_rows [1, 1 / 2]) 3 5"
  let ?run = "get_samples ex_media ?g ''long.mp4'' ''labels.csv'' []"
  have "\<not> isl (fst ?run)" by (simp add: ex_defs run_defs fl_vals fl_wins)
  then have run: "?run = (Inr (projr (fst ?run)), snd ?run)" by (rule run_projr)
  have g: "sr ?g = 5" "fps ?g = 3" by (simp_all add: ex_gen_def init_def)
  have ts: "cast32 (hd (ex_rows [1, 1 / 2] ! 0)) = Fin 1"
    "cast32 (hd (ex_rows [1, 1 / 2] ! 1)) = Fin (1 / 2)"
    by (simp_all add: ex_rows_def fl_vals)
  from windows_truncate [OF run ex_reader_rows] obtain t0 t1 d aw vw where
    t: "cast32 (hd (ex_rows [1, 1 / 2] ! 0)) = Fin t0"
       "cast32 (hd (ex_rows [1, 1 / 2] ! 1)) = Fin t1" "r32 (t1 - t0) = Fin d" and
    ns: "num_samples (projr (fst ?run)) = [aw, vw]" and
    a: "\<exists>R x z n y. r64 (of_int (sr ?g)) = Fin R \<and> r64 (R * d) = Fin x \<and>
        r64 (x * 10 ^ 6) = Fin z \<and>
        \<bar>z - of_int n\<bar> \<le> 1 / 2 \<and> (\<bar>z - of_int n\<bar> = 1 / 2 \<longrightarrow> even n) \<and>
        r64 (of_int n / 10 ^ 6) = Fin y \<and> aw = (if 0 \<le> y then \<lfloor>y\<rfloor> else \<lceil>y\<rceil>)" and
    v: "\<exists>R x z n y. r64 (of_int (fps ?g)) = Fin R \<and> r64 (R * d) = Fin x \<and>
        r64 (x * 10 ^ 6) = Fin z \<and>
        \<bar>z - of_int n\<bar> \<le> 1 / 2 \<and> (\<bar>z - of_int n\<bar> = 1 / 2 \<longrightarrow> even n) \<and>
        r64 (of_int n / 10 ^ 6) = Fin y \<and> vw = (if 0 \<le> y then \<lfloor>y\<rfloor> else \<lceil>y\<rceil>)"
    by blast
  from a t have "num_samples_of (sr ?g) (cast32 (hd (ex_rows [1, 1 / 2] ! 0)))
      (cast32 (hd (ex_rows [1, 1 / 2] ! 1))) = Inr aw"
    by (elim exE conjE) (rule num_samples_of_chain)
  then have aw: "aw = - 2" unfolding g ts fl_wins by simp
  from v t have "num_samples_of (fps ?g) (cast32 (hd (ex_rows [1, 1 / 2] ! 0)))
      (cast32 (hd (ex_rows [1, 1 / 2] ! 1))) = Inr vw"
    by (elim exE conjE) (rule num_samples_of_chain)
  then have vw: "vw = - 1" unfolding g ts fl_wins by simp
  from ns aw vw show "num_samples (projr (fst ?run)) = [- 2, - 1]" by simp
qed

text \<open>
  The claim as stated, with rounding to the nearest integer, fails for increasing
  timestamps: for the timestamps 0 and 0.9 at 30 frames and 16000 samples per second the
  products 27 and 14400 are whole numbers, and the windows are 26 and 14399, because the
  \<^verbatim>\<open>float32\<close> value of 0.9 is 0.89999998.
\<close>

theorem window_not_nearest:
  "num_samples (projr (fst (get_samples ex_media (ex_gen False (ex_rows [0, 9 / 10]) 30 16000)
       ''long.mp4'' ''labels.csv'' []))) = [14399, 26] \<and>
   round (16000 * (9 / 10 - 0) :: real) = 14400 \<and>
   round (30 * (9 / 10 - 0) :: real) = 27"
  by (simp add: ex_defs run_defs fl_vals fl_wins)

subsection \<open>C4: fewer than two label rows\<close>

text \<open>
  Claim C4, as amended. With fewer than two label rows the aligner always fails and
  never reads a range of the media. With no row, or with one row without columns, it
  fails with \<^verbatim>\<open>IndexError\<close> before the media file is opened. With one row it opens
  the media file first and then fails: with the error of opening it, with
  \<^verbatim>\<open>AttributeError\<close> when the clip has no audio track, and otherwise with the
  \<^verbatim>\<open>IndexError\<close> of \<^verbatim>\<open>timestamps[1]\<close>.
\<close>

theorem few_rows_fail:
  assumes "labelfile_reader g lf = Inr (rows, names)" and "length rows < 2"
  shows "get_samples m g df lf s =
     (if rows = [] \<or> hd rows = [] then (Inl IndexError, s @ [ReadLabels lf])
      else (Inl (case m df of
                   Inl e \<Rightarrow> e
                 | Inr c \<Rightarrow> if has_audio c then IndexError else AttributeError),
            s @ [ReadLabels lf, OpenClip df]))"
proof (cases rows)
  case Nil
  with assms show ?thesis
    by (simp add: get_samples_def np_array_rows_def column0_def)
next
  case (Cons r rs)
  with assms have rs: "rs = []" by simp
  show ?thesis
    using assms Cons rs
    by (simp add: get_samples_def np_array_rows_def column0_def Let_def split: sum.splits)
qed

text \<open>The theorem at a label file with one row and at an empty label file.\<close>

theorem few_rows_fail_witness:
  "get_samples ex_media (ex_gen False [[Fin 0, Fin 5, Fin 7]] 30 16000)
     ''clip.mp4'' ''labels.csv'' [] =
   (Inl IndexError, [ReadLabels ''labels.csv'', OpenClip ''clip.mp4''])
   \<and> get_samples ex_media (ex_gen False [] 30 16000) ''clip.mp4'' ''labels.csv'' [] =
   (Inl IndexError, [ReadLabels ''labels.csv''])"
  using few_rows_fail [of "ex_gen False [[Fin 0, Fin 5, Fin 7]] 30 16000" "''labels.csv''"
      "[[Fin 0, Fin 5, Fin 7]]" "[''time'', ''arousal'', ''valence'']" ex_media "''clip.mp4''" "[]"]
    few_rows_fail [of "ex_gen False [] 30 16000" "''labels.csv''" "[]"
      "[''time'', ''arousal'', ''valence'']" ex_media "''clip.mp4''" "[]"]
  by (simp add: ex_defs)

text \<open>
  The claim as stated fails: with one label row the media file is opened before the
  run fails.
\<close>

theorem one_row_opens_media:
  "get_samples ex_media (ex_gen False [[Fin 0, Fin 5, Fin 7]] 30 16000)
     ''clip.mp4'' ''labels.csv'' [] =
   (Inl IndexError, [ReadLabels ''labels.csv'', OpenClip ''clip.mp4''])"
  by (simp add: ex_defs run_defs fl_vals)

subsection \<open>C7: the label names\<close>

text \<open>
  Claim C7, as amended. \<^verbatim>\<open>_get_samples\<close> returns the attribute names of the label
  reader unchanged, and \<^verbatim>\<open>serialize_samples\<close> stores as \<^verbatim>\<open>label_names\<close> these names
  without the first one: one leading name is dropped, not two.
\<close>

theorem label_names_drop_first:
  assumes "serialize_samples m g w df lf s = (Inr w', s')"
    and "labelfile_reader g lf = Inr (rows, names)"
  shows "attrs w' ''label_names'' = Some (AStrList (drop 1 names)) \<and>
    (\<exists>r. get_samples m g df lf s = (Inr r, s') \<and> attrs_name r = names)"
proof -
  from assms(1) obtain r where r: "get_samples m g df lf s = (Inr r, s')"
    by (auto simp: serialize_samples_def split: sum.splits prod.splits)
  have names: "attrs_name r = names"
    using r assms(2)
    by (auto simp: get_samples_def Let_def split: sum.splits prod.splits if_splits)
  have "attrs w' ''label_names'' = Some (AStrList (drop 1 (attrs_name r)))"
    using assms(1) r
    by (auto simp: serialize_samples_def set_attr_def Let_def split: sum.splits)
  with r names show ?thesis by simp
qed

text \<open>The theorem at the two-row label file with three attribute names.\<close>

theorem label_names_drop_first_witness:
  "attrs (projr (fst (serialize_samples ex_media (ex_gen False ex_rows2 30 16000) ex_writer
       ''clip.mp4'' ''labels.csv'' []))) ''label_names'' = Some (AStrList (drop 1 ex_names))"
proof -
  let ?run = "serialize_samples ex_media (ex_gen False ex_rows2 30 16000) ex_writer
       ''clip.mp4'' ''labels.csv'' []"
  have "\<not> isl (fst ?run)"
    by (simp add: serialize_samples_def ex_run_two create_dataset_def set_attr_def ex_writer_def)
  then have "?run = (Inr (projr (fst ?run)), snd ?run)"
    by (cases "fst ?run") (simp_all add: prod_eq_iff)
  from label_names_drop_first [OF this ex_reader_rows] show ?thesis by simp
qed

text \<open>
  The claim as stated fails: of the names time, arousal and valence the stored
  \<^verbatim>\<open>label_names\<close> are arousal and valence, not valence alone, and the returned names
  are all three.
\<close>

theorem label_names_one_dropped:
  "attrs (projr (fst (serialize_samples ex_media (ex_gen False ex_rows2 30 16000) ex_writer
       ''clip.mp4'' ''labels.csv'' []))) ''label_names'' =
     Some (AStrList [''arousal'', ''valence'']) \<and>
   drop 2 ex_names = [''valence''] \<and>
   attrs_name (projr (fst (get_samples ex_media (ex_gen False ex_rows2 30 16000)
       ''clip.mp4'' ''labels.csv'' []))) = [''time'', ''arousal'', ''valence'']"
  by (simp add: serialize_samples_def ex_run_two create_dataset_def set_attr_def ex_writer_def
      ex_names_def)

subsection \<open>C10: the detector is always present\<close>



end
